theory Spec2Isabelle
  imports Complex_Main "HOL-Library.AList"
begin

section \<open>Data model of the scene graph (printpal/core/ui\_component.py)\<close>

text \<open>
  Python objects have identity and are shared by reference: a component is reachable
  from its parent's \<open>children\<close> list and points back through \<open>parent\<close>. The model is
  an explicit store from references to component records. Every reference denotes a
  live object (Python has no dangling references), so the store is a total function.
\<close>

type_synonym ref = nat

text \<open>The closed set of event kinds of \<open>printpal/core/events.py\<close>.\<close>

datatype UIEvent =
    CLICK | LONG_PRESS | ROTATE_CW | ROTATE_CCW | FOCUS | BLUR
  | VALUE_CHANGE | ANIMATION_FRAME | SCREEN_ENTER | SCREEN_EXIT
  | KEY_PRESS | KEY_RELEASE

text \<open>\<open>UIRect\<close>: four Python integers, no validation on construction.\<close>

record UIRect =
  rect_x :: int
  rect_y :: int
  rect_width :: int
  rect_height :: int

definition right :: "UIRect \<Rightarrow> int" where
  "right r = rect_x r + rect_width r"

definition bottom :: "UIRect \<Rightarrow> int" where
  "bottom r = rect_y r + rect_height r"

definition contains :: "UIRect \<Rightarrow> int \<Rightarrow> int \<Rightarrow> bool" where
  "contains r px py \<longleftrightarrow>
     (rect_x r \<le> px \<and> px \<le> right r) \<and> (rect_y r \<le> py \<and> py \<le> bottom r)"

text \<open>
  Python values that an attribute of a component can hold and an animation can write:
  a bool, a number (Python \<open>int\<close> or \<open>float\<close>, read as a real; floats are modelled as
  reals), a tuple of numbers, a component, a list of components, a rectangle, or any
  other object (opaque; taken to be truthy, not numeric and not iterable).
\<close>

datatype pyval =
    Bool bool | Num real | Tup "real list" | Ref ref | Refs "ref list" | Rect UIRect
  | Other string

text \<open>Truth value testing (\<open>if x\<close>, \<open>not x\<close>).\<close>

fun truthy :: "pyval \<Rightarrow> bool" where
  "truthy (Bool b) = b"
| "truthy (Num r) = (r \<noteq> 0)"
| "truthy (Tup xs) = (xs \<noteq> [])"
| "truthy (Refs cs) = (cs \<noteq> [])"
| "truthy (Ref c) = True"
| "truthy (Rect r) = True"
| "truthy (Other s) = True"

text \<open>The animation descriptor stored by \<open>animate\<close> (a dict with these five keys).\<close>

record anim =
  anim_from :: pyval
  anim_to :: pyval
  duration :: real
  start_time :: real
  easing :: "real \<Rightarrow> real"

text \<open>
  Handlers are Python callables; the store names them by an identifier and their
  behaviour is supplied separately (see \<open>emit\<close>).
\<close>

type_synonym hid = nat

text \<open>
  \<open>UIComponent\<close>: the instance attributes that \<open>__init__\<close> creates and the engine
  reads are fields of the record, each with the type the engine uses it at. The two
  flags are only ever read for their truth value, so they hold any value
  (\<open>visible_attr\<close>, \<open>enabled_attr\<close>) and \<open>visible\<close>, \<open>enabled\<close> below are that
  reading. Every other instance attribute (\<open>id\<close>, \<open>styles\<close>, \<open>tags\<close>, those of
  subclasses, those added later) is in \<open>attrs\<close> by name; an absent name and the value
  \<open>None\<close> are both \<open>None\<close> of the map. \<open>animations\<close> is a Python dict, whose
  iteration order is insertion order: an association list.
\<close>

record UIComponent =
  rect :: UIRect
  visible_attr :: pyval
  enabled_attr :: pyval
  z_index :: real
  parent :: "ref option"
  children :: "ref list"
  event_handlers :: "UIEvent \<rightharpoonup> hid list"
  attrs :: "string \<rightharpoonup> pyval"
  animations :: "(string \<times> anim) list"
  animation_progress :: real

definition visible :: "UIComponent \<Rightarrow> bool" where
  "visible self = truthy (visible_attr self)"

definition enabled :: "UIComponent \<Rightarrow> bool" where
  "enabled self = truthy (enabled_attr self)"

type_synonym heap = "ref \<Rightarrow> UIComponent"

text \<open>
  \<open>UIComponent.__init__(rect)\<close> with the default keyword arguments; \<open>id\<close> is a
  string, \<open>styles\<close> a dict and \<open>tags\<close> a list, none of which the engine modelled
  here reads.
\<close>

definition new_component :: "UIRect \<Rightarrow> UIComponent" where
  "new_component r =
     \<lparr> rect = r, visible_attr = Bool True, enabled_attr = Bool True, z_index = 0,
       parent = None, children = [], event_handlers = Map.empty,
       attrs = [''id'' \<mapsto> Other ''str'', ''styles'' \<mapsto> Other ''dict'',
                ''tags'' \<mapsto> Other ''list''],
       animations = [], animation_progress = 0 \<rparr>"

text \<open>
  \<open>UIContainer.__init__(rect)\<close> adds \<open>border_width\<close>, \<open>corner_radius\<close> and
  \<open>padding\<close> (0 by default); \<open>background_color\<close> and \<open>border_color\<close> are \<open>None\<close>.
\<close>

definition new_container :: "UIRect \<Rightarrow> UIComponent" where
  "new_container r =
     (new_component r)
       \<lparr>attrs := (attrs (new_component r))
          (''border_width'' \<mapsto> Num 0, ''corner_radius'' \<mapsto> Num 0, ''padding'' \<mapsto> Num 0)\<rparr>"

section \<open>Tree mutation\<close>

text \<open>
  \<open>add_child\<close>: \<open>child.parent = self; self.children.append(child)\<close>, in that order,
  with no check of the child's previous parent and no check for duplicates.
\<close>

definition add_child :: "heap \<Rightarrow> ref \<Rightarrow> ref \<Rightarrow> heap" where
  "add_child h self child =
     (let h1 = h(child := (h child)\<lparr>parent := Some self\<rparr>)
      in h1(self := (h1 self)\<lparr>children := children (h1 self) @ [child]\<rparr>))"

text \<open>
  \<open>remove_child\<close>: \<open>if child in self.children: child.parent = None;
  self.children.remove(child)\<close>. Membership and \<open>list.remove\<close> compare by identity
  (the class defines no \<open>__eq__\<close>); \<open>list.remove\<close> deletes the first occurrence only.
\<close>

definition remove_child :: "heap \<Rightarrow> ref \<Rightarrow> ref \<Rightarrow> heap" where
  "remove_child h self child =
     (if child \<in> set (children (h self))
      then let h1 = h(child := (h child)\<lparr>parent := None\<rparr>)
           in h1(self := (h1 self)\<lparr>children := remove1 child (children (h1 self))\<rparr>)
      else h)"

text \<open>
  The bookkeeping invariant of the data model: a node appears in \<open>p.children\<close>
  iff its \<open>parent\<close> is \<open>p\<close>.
\<close>

definition parent_inv :: "heap \<Rightarrow> bool" where
  "parent_inv h \<longleftrightarrow> (\<forall>n p. n \<in> set (children (h p)) \<longleftrightarrow> parent (h n) = Some p)"

text \<open>A store of freshly constructed, unrelated components with empty rectangles.\<close>

definition blank :: UIComponent where
  "blank = new_component \<lparr>rect_x = 0, rect_y = 0, rect_width = 0, rect_height = 0\<rparr>"

definition blank_heap :: heap where
  "blank_heap = (\<lambda>_. blank)"

text \<open>Node 3 owned by node 1; node 2 unrelated.\<close>

definition owned_heap :: heap where
  "owned_heap = add_child blank_heap 1 3"

section \<open>Hit testing\<close>

text \<open>
  Exceptions the engine itself can raise. The traversals recurse through \<open>children\<close>
  with no cycle check; Python bounds the call depth and raises \<open>RecursionError\<close> when
  it is exhausted, so every recursive traversal carries the remaining call depth.
  \<open>HandlerException\<close> is an exception raised by a screen's \<open>handle_event\<close>, which the
  engine never catches. \<open>BaseException\<close> is an exception raised by a handler that is
  not an instance of \<open>Exception\<close> (\<open>SystemExit\<close>, \<open>KeyboardInterrupt\<close>), which
  \<open>emit\<close> does not catch. \<open>Unrepresentable p\<close> is not a Python exception: it marks
  the point where an animation writes to attribute \<open>p\<close> a value outside the type the
  record gives it (the code stores the value and fails when the engine next uses the
  attribute), beyond which the typed store does not follow the code.
\<close>

datatype error =
    RecursionError | ZeroDivisionError | HandlerException string | BaseException string
  | Unrepresentable string

text \<open>
  \<open>hit_test\<close>. \<open>sorted(..., key=...)\<close> is a stable sort, and so is \<open>sort_key\<close>;
  \<open>reversed\<close> is \<open>rev\<close>. A component object is always truthy, so \<open>if result\<close>
  tests for \<open>None\<close>. The loop over the children is \<open>hit_children\<close>; its first
  argument is the depth left for each child's call.
\<close>

fun hit_children :: "(ref \<Rightarrow> error + ref option) \<Rightarrow> ref list \<Rightarrow> error + ref option" where
  "hit_children test [] = Inr None"
| "hit_children test (child # rest) =
     (case test child of
        Inl e \<Rightarrow> Inl e
      | Inr (Some result) \<Rightarrow> Inr (Some result)
      | Inr None \<Rightarrow> hit_children test rest)"

fun hit_test :: "nat \<Rightarrow> heap \<Rightarrow> ref \<Rightarrow> int \<Rightarrow> int \<Rightarrow> error + ref option" where
  "hit_test 0 h self px py = Inl RecursionError"
| "hit_test (Suc d) h self px py =
     (if \<not> visible (h self) \<or> \<not> enabled (h self) then Inr None
      else if contains (rect (h self)) px py then
        (case hit_children (\<lambda>child. hit_test d h child px py)
                (rev (sort_key (\<lambda>c. z_index (h c)) (children (h self)))) of
           Inl e \<Rightarrow> Inl e
         | Inr (Some result) \<Rightarrow> Inr (Some result)
         | Inr None \<Rightarrow> Inr (Some self))
      else Inr None)"

text \<open>
  The scenario of the specification: a root container (reference 0) spanning the
  320 by 240 display with one child button (reference 1) at (10, 10), 50 by 30.
\<close>

definition scenario_heap :: heap where
  "scenario_heap =
     add_child
       (blank_heap
          (0 := new_component \<lparr>rect_x = 0, rect_y = 0, rect_width = 320, rect_height = 240\<rparr>,
           1 := new_component \<lparr>rect_x = 10, rect_y = 10, rect_width = 50, rect_height = 30\<rparr>))
       0 1"

text \<open>A childless component with a rectangle of negative width (reference 0).\<close>

definition negative_heap :: heap where
  "negative_heap =
     blank_heap (0 := new_component \<lparr>rect_x = 0, rect_y = 0, rect_width = - 1, rect_height = 0\<rparr>)"

text \<open>
  A child is a candidate at a point when its own \<open>hit_test\<close> gets past the first two
  tests: visible, enabled, and the rectangle contains the point.
\<close>

definition candidate :: "heap \<Rightarrow> int \<Rightarrow> int \<Rightarrow> ref \<Rightarrow> bool" where
  "candidate h px py c \<longleftrightarrow> visible (h c) \<and> enabled (h c) \<and> contains (rect (h c)) px py"

text \<open>
  The selection the specification describes, written over the child sequence itself:
  the candidate of highest z-index, the last one in child order among equals.
\<close>

fun top_candidate :: "('a \<Rightarrow> bool) \<Rightarrow> ('a \<Rightarrow> real) \<Rightarrow> 'a list \<Rightarrow> 'a option" where
  "top_candidate P f [] = None"
| "top_candidate P f (x # xs) =
     (case top_candidate P f xs of
        None \<Rightarrow> if P x then Some x else None
      | Some c \<Rightarrow> if P x \<and> f c < f x then Some x else Some c)"

text \<open>
  A root (reference 0) with two children: reference 1 (z-index 2), which has a child of
  its own (reference 2), and reference 3 (z-index 1). All rectangles contain (5, 5).
\<close>

definition nested_heap :: heap where
  "nested_heap =
     add_child (add_child (add_child
       (blank_heap
          (0 := new_component \<lparr>rect_x = 0, rect_y = 0, rect_width = 100, rect_height = 100\<rparr>,
           1 := (new_component \<lparr>rect_x = 0, rect_y = 0, rect_width = 50, rect_height = 50\<rparr>)
                  \<lparr>z_index := 2\<rparr>,
           2 := new_component \<lparr>rect_x = 0, rect_y = 0, rect_width = 10, rect_height = 10\<rparr>,
           3 := (new_component \<lparr>rect_x = 0, rect_y = 0, rect_width = 50, rect_height = 50\<rparr>)
                  \<lparr>z_index := 1\<rparr>))
       0 1) 0 3) 1 2"

text \<open>The same tree with the root hidden.\<close>

definition hidden_parent_heap :: heap where
  "hidden_parent_heap = nested_heap (0 := (nested_heap 0)\<lparr>visible_attr := Bool False\<rparr>)"

text \<open>
  Three childless siblings under a root (reference 0), in child order: reference 1
  (z-index 2), reference 2 (z-index 2) and reference 3 (z-index 1), all over (5, 5).
\<close>

definition siblings_heap :: heap where
  "siblings_heap =
     add_child (add_child (add_child
       (blank_heap
          (0 := new_component \<lparr>rect_x = 0, rect_y = 0, rect_width = 100, rect_height = 100\<rparr>,
           1 := (new_component \<lparr>rect_x = 0, rect_y = 0, rect_width = 10, rect_height = 10\<rparr>)
                  \<lparr>z_index := 2\<rparr>,
           2 := (new_component \<lparr>rect_x = 0, rect_y = 0, rect_width = 10, rect_height = 10\<rparr>)
                  \<lparr>z_index := 2\<rparr>,
           3 := (new_component \<lparr>rect_x = 0, rect_y = 0, rect_width = 10, rect_height = 10\<rparr>)
                  \<lparr>z_index := 1\<rparr>))
       0 1) 0 2) 0 3"

section \<open>Events\<close>

text \<open>
  The payload of an emit: Python's \<open>*args\<close> and \<open>**kwargs\<close>.
\<close>

type_synonym kwargs = "(string \<times> pyval) list"
type_synonym payload = "pyval list \<times> kwargs"

text \<open>
  A handler is an arbitrary Python callable. Its behaviour is a transformer of the
  application state \<open>'w\<close> together with an outcome: it returns; it raises an instance
  of \<open>Exception\<close> with a message (\<open>Raised\<close>); or it raises an exception that is not
  an instance of \<open>Exception\<close>, such as \<open>SystemExit\<close> from \<open>sys.exit()\<close> or
  \<open>KeyboardInterrupt\<close> (\<open>Exited\<close>). Handlers act on the application state only: they
  alter neither the handler tables nor the manager.
\<close>

datatype outcome = Returned | Raised string | Exited string

type_synonym 'w handler_sem = "hid \<Rightarrow> payload \<Rightarrow> 'w \<Rightarrow> 'w \<times> outcome"

text \<open>
  The handlers that return or fail with an instance of \<open>Exception\<close>: their behaviour
  is given with \<open>None\<close> for a return and \<open>Some e\<close> for the exception raised.
\<close>

definition ordinary :: "(hid \<Rightarrow> payload \<Rightarrow> 'w \<Rightarrow> 'w \<times> string option) \<Rightarrow> 'w handler_sem" where
  "ordinary f handler pl w =
     (case f handler pl w of (w', None) \<Rightarrow> (w', Returned) | (w', Some e) \<Rightarrow> (w', Raised e))"

text \<open>
  What an execution does besides changing the state is recorded in a trace: the calls of
  \<open>emit\<close>, the handlers invoked with their outcome, the lines printed, and the screen
  hooks called.
\<close>

type_synonym sref = nat

datatype obs =
    EmitCall ref UIEvent payload
  | Invoked hid payload outcome
  | Printed string
  | HandleEventCall sref UIEvent kwargs
  | OnExitCall sref
  | OnEnterCall sref

text \<open>
  The loop of \<open>emit\<close>: each handler is called inside \<open>try\<close>; \<open>except Exception as e\<close>
  prints the message and the loop goes on. An exception that is not an instance of
  \<open>Exception\<close> is not caught: it ends the loop and leaves \<open>emit\<close>.
\<close>

fun run_handlers :: "'w handler_sem \<Rightarrow> hid list \<Rightarrow> payload \<Rightarrow> 'w \<times> obs list
    \<Rightarrow> ('w \<times> obs list) \<times> error option" where
  "run_handlers sem [] pl (w, tr) = ((w, tr), None)"
| "run_handlers sem (handler # rest) pl (w, tr) =
     (case sem handler pl w of
        (w', Returned) \<Rightarrow> run_handlers sem rest pl (w', tr @ [Invoked handler pl Returned])
      | (w', Raised e) \<Rightarrow>
          run_handlers sem rest pl
            (w', tr @ [Invoked handler pl (Raised e),
                       Printed (''Error in event handler: '' @ e)])
      | (w', Exited m) \<Rightarrow>
          ((w', tr @ [Invoked handler pl (Exited m)]), Some (BaseException m)))"

text \<open>
  \<open>emit\<close>: \<open>if event in self.event_handlers: for handler in ...\<close>. It reads the
  handler table of the component and writes nothing to it.
\<close>

definition emit :: "'w handler_sem \<Rightarrow> UIComponent \<Rightarrow> UIEvent \<Rightarrow> payload \<Rightarrow> 'w \<times> obs list
    \<Rightarrow> ('w \<times> obs list) \<times> error option" where
  "emit sem self event pl s =
     (case event_handlers self event of
        None \<Rightarrow> (s, None)
      | Some handlers \<Rightarrow> run_handlers sem handlers pl s)"

text \<open>\<open>on\<close>: appends the handler to the list of the event, creating the list if needed.\<close>

definition on :: "UIEvent \<Rightarrow> hid \<Rightarrow> UIComponent \<Rightarrow> UIComponent" where
  "on event handler self =
     self\<lparr>event_handlers := (event_handlers self)
       (event \<mapsto> (case event_handlers self event of None \<Rightarrow> [] | Some hs \<Rightarrow> hs) @ [handler])\<rparr>"

text \<open>The handlers invoked in a trace, and the messages raised and printed in it.\<close>

fun invoked :: "obs list \<Rightarrow> hid list" where
  "invoked [] = []"
| "invoked (Invoked handler pl oc # tr) = handler # invoked tr"
| "invoked (_ # tr) = invoked tr"

fun raised :: "obs list \<Rightarrow> string list" where
  "raised [] = []"
| "raised (Invoked handler pl (Raised e) # tr) = e # raised tr"
| "raised (_ # tr) = raised tr"

fun printed :: "obs list \<Rightarrow> string list" where
  "printed [] = []"
| "printed (Printed line # tr) = line # printed tr"
| "printed (_ # tr) = printed tr"

section \<open>Animation\<close>

text \<open>
  \<open>animate\<close> and \<open>_update_animations\<close> reach the attributes of the object by name, with
  \<open>getattr\<close> and \<open>setattr\<close>. A name denotes a slot: one of the fields of the record,
  a method of the class, or an entry of \<open>attrs\<close>. (The special attributes of Python
  objects, such as \<open>__class__\<close> and \<open>__dict__\<close>, are not modelled.)
\<close>

datatype slot =
    RectSlot | VisibleSlot | EnabledSlot | ZIndexSlot | ParentSlot | ChildrenSlot
  | HandlersSlot | AnimationsSlot | ProgressSlot | MethodSlot | AttrSlot string

definition field_slots :: "(string \<times> slot) list" where
  "field_slots =
     [(''rect'', RectSlot), (''visible'', VisibleSlot), (''enabled'', EnabledSlot),
      (''z_index'', ZIndexSlot), (''parent'', ParentSlot), (''children'', ChildrenSlot),
      (''event_handlers'', HandlersSlot), (''animations'', AnimationsSlot),
      (''animation_progress'', ProgressSlot)]"

definition method_names :: "string list" where
  "method_names =
     [''add_child'', ''remove_child'', ''on'', ''emit'', ''update'', ''render'',
      ''_render_self'', ''_update_animations'', ''animate'', ''hit_test'', ''find_by_id'',
      ''find_by_tag'']"

definition slot_of :: "string \<Rightarrow> slot" where
  "slot_of name =
     (case map_of field_slots name of
        Some s \<Rightarrow> s
      | None \<Rightarrow> if name \<in> set method_names then MethodSlot else AttrSlot name)"

text \<open>
  \<open>getattr(self, name, None)\<close>: \<open>None\<close> when the attribute is absent or is \<open>None\<close>.
  The two dicts and the bound methods are opaque objects.
\<close>

fun getattr_slot :: "slot \<Rightarrow> UIComponent \<Rightarrow> pyval option" where
  "getattr_slot RectSlot self = Some (Rect (rect self))"
| "getattr_slot VisibleSlot self = Some (visible_attr self)"
| "getattr_slot EnabledSlot self = Some (enabled_attr self)"
| "getattr_slot ZIndexSlot self = Some (Num (z_index self))"
| "getattr_slot ParentSlot self = map_option Ref (parent self)"
| "getattr_slot ChildrenSlot self = Some (Refs (children self))"
| "getattr_slot HandlersSlot self = Some (Other ''dict'')"
| "getattr_slot AnimationsSlot self = Some (Other ''dict'')"
| "getattr_slot ProgressSlot self = Some (Num (animation_progress self))"
| "getattr_slot MethodSlot self = Some (Other ''method'')"
| "getattr_slot (AttrSlot name) self = attrs self name"

definition getattr :: "string \<Rightarrow> UIComponent \<Rightarrow> pyval option" where
  "getattr name self = getattr_slot (slot_of name) self"

text \<open>
  \<open>setattr(self, name, value)\<close>. Python stores any value under any name. The record
  can follow it when the value has the type of the field (any value for the two flags
  and for an entry of \<open>attrs\<close>); otherwise the result is \<open>None\<close>, and so it is for the
  two dicts and for a method name, which no value of \<open>pyval\<close> can replace.
\<close>

fun setattr_slot :: "slot \<Rightarrow> pyval \<Rightarrow> UIComponent \<Rightarrow> UIComponent option" where
  "setattr_slot RectSlot (Rect r) self = Some (self\<lparr>rect := r\<rparr>)"
| "setattr_slot VisibleSlot v self = Some (self\<lparr>visible_attr := v\<rparr>)"
| "setattr_slot EnabledSlot v self = Some (self\<lparr>enabled_attr := v\<rparr>)"
| "setattr_slot ZIndexSlot (Num r) self = Some (self\<lparr>z_index := r\<rparr>)"
| "setattr_slot ParentSlot (Ref p) self = Some (self\<lparr>parent := Some p\<rparr>)"
| "setattr_slot ChildrenSlot (Refs cs) self = Some (self\<lparr>children := cs\<rparr>)"
| "setattr_slot ProgressSlot (Num r) self = Some (self\<lparr>animation_progress := r\<rparr>)"
| "setattr_slot (AttrSlot name) v self = Some (self\<lparr>attrs := (attrs self)(name \<mapsto> v)\<rparr>)"
| "setattr_slot _ _ self = None"

definition setattr :: "string \<Rightarrow> pyval \<Rightarrow> UIComponent \<Rightarrow> UIComponent option" where
  "setattr name v self = setattr_slot (slot_of name) v self"

text \<open>
  \<open>animate\<close>: \<open>getattr(self, property_name, None)\<close>, nothing to do when it is \<open>None\<close>;
  otherwise the descriptor is stored under the property name (a dict assignment keeps
  the position of an existing key and appends a new one, as \<open>AList.update\<close>).
  \<open>now\<close> is the reading of \<open>time.time()\<close>.
\<close>

definition animate :: "real \<Rightarrow> string \<Rightarrow> pyval \<Rightarrow> real \<Rightarrow> (real \<Rightarrow> real) option \<Rightarrow> UIComponent \<Rightarrow> UIComponent" where
  "animate now property_name to_value dur eas self =
     (case getattr property_name self of
        None \<Rightarrow> self
      | Some from_value \<Rightarrow>
          self\<lparr>animations :=
            AList.update property_name
              \<lparr>anim_from = from_value, anim_to = to_value, duration = dur, start_time = now,
               easing = (case eas of None \<Rightarrow> (\<lambda>x. x) | Some e \<Rightarrow> e)\<rparr>
              (animations self)\<rparr>)"

text \<open>
  \<open>isinstance(v, (int, float))\<close>: a number, or a bool (a subclass of \<open>int\<close>, with
  \<open>True\<close> equal to 1 and \<open>False\<close> to 0).
\<close>

fun as_num :: "pyval \<Rightarrow> real option" where
  "as_num (Num r) = Some r"
| "as_num (Bool b) = Some (if b then 1 else 0)"
| "as_num _ = None"

text \<open>
  The interpolation of \<open>_update_animations\<close>: two numbers, or two tuples component-wise
  over \<open>zip\<close>; any other pair of values matches neither \<open>isinstance\<close> test and the
  attribute is left alone (\<open>None\<close>).
\<close>

fun interpolate_tuples :: "pyval \<Rightarrow> pyval \<Rightarrow> real \<Rightarrow> pyval option" where
  "interpolate_tuples (Tup fs) (Tup ts) e =
     Some (Tup (map (\<lambda>(f, t). f + (t - f) * e) (zip fs ts)))"
| "interpolate_tuples _ _ e = None"

definition interpolate :: "pyval \<Rightarrow> pyval \<Rightarrow> real \<Rightarrow> pyval option" where
  "interpolate from_val to_val e =
     (case (as_num from_val, as_num to_val) of
        (Some f, Some t) \<Rightarrow> Some (Num (f + (t - f) * e))
      | _ \<Rightarrow> interpolate_tuples from_val to_val e)"

text \<open>
  The loop over \<open>self.animations.items()\<close>, threading the object and \<open>to_remove\<close>.
  The float division raises \<open>ZeroDivisionError\<close> for a zero duration; what was written
  before that stays written.
\<close>

fun anim_loop :: "real \<Rightarrow> (string \<times> anim) list \<Rightarrow> UIComponent \<Rightarrow> string list
    \<Rightarrow> UIComponent \<times> string list \<times> error option" where
  "anim_loop current_time [] self to_remove = (self, to_remove, None)"
| "anim_loop current_time ((prop_name, a) # rest) self to_remove =
     (if duration a = 0 then (self, to_remove, Some ZeroDivisionError)
      else
        let elapsed = current_time - start_time a;
            progress = min 1 (elapsed / duration a)
        in if progress \<ge> 1
           then (case setattr prop_name (anim_to a) self of
                   None \<Rightarrow> (self, to_remove, Some (Unrepresentable prop_name))
                 | Some self' \<Rightarrow>
                     anim_loop current_time rest self' (to_remove @ [prop_name]))
           else (case interpolate (anim_from a) (anim_to a) (easing a progress) of
                   Some v \<Rightarrow>
                     (case setattr prop_name v self of
                        None \<Rightarrow> (self, to_remove, Some (Unrepresentable prop_name))
                      | Some self' \<Rightarrow> anim_loop current_time rest self' to_remove)
                 | None \<Rightarrow> anim_loop current_time rest self to_remove))"

text \<open>
  \<open>_update_animations\<close>. \<open>(a + dt) % 1.0\<close> on floats is the fractional part. The loop
  runs over the items of the dict as it is when the loop starts. When the loop raises,
  the deletions of the completed animations are not reached.
\<close>

definition update_animations :: "real \<Rightarrow> real \<Rightarrow> UIComponent \<Rightarrow> UIComponent \<times> error option" where
  "update_animations dt current_time self =
     (let self1 = self\<lparr>animation_progress := frac (animation_progress self + dt)\<rparr>
      in case anim_loop current_time (animations self1) self1 [] of
           (self2, to_remove, Some e) \<Rightarrow> (self2, Some e)
         | (self2, to_remove, None) \<Rightarrow>
             (self2\<lparr>animations := fold AList.delete to_remove (animations self2)\<rparr>, None))"

section \<open>Update traversal\<close>

text \<open>
  The state of a traversal is the store and the number of clock readings taken so far;
  \<open>clk k\<close> is what the \<open>k\<close>-th call of \<open>time.time()\<close> returns. An exception leaves
  the store as it was when it was raised.
\<close>

type_synonym ustate = "heap \<times> nat"

fun update_children :: "(ref \<Rightarrow> ustate \<Rightarrow> ustate \<times> error option) \<Rightarrow> ref list \<Rightarrow> ustate
    \<Rightarrow> ustate \<times> error option" where
  "update_children upd [] s = (s, None)"
| "update_children upd (child # rest) s =
     (if visible (fst s child)
      then (case upd child s of
              (s', Some e) \<Rightarrow> (s', Some e)
            | (s', None) \<Rightarrow> update_children upd rest s')
      else update_children upd rest s)"

fun update :: "nat \<Rightarrow> (nat \<Rightarrow> real) \<Rightarrow> real \<Rightarrow> ref \<Rightarrow> ustate \<Rightarrow> ustate \<times> error option" where
  "update 0 clk dt self s = (s, Some RecursionError)"
| "update (Suc d) clk dt self s =
     (case (if animations (fst s self) \<noteq> []
            then (case update_animations dt (clk (snd s)) (fst s self) of
                    (self', err) \<Rightarrow> (((fst s)(self := self'), Suc (snd s)), err))
            else (s, None)) of
        (s1, Some e) \<Rightarrow> (s1, Some e)
      | (s1, None) \<Rightarrow>
          update_children (\<lambda>child s'. update d clk dt child s') (children (fst s1 self)) s1)"

text \<open>
  The child relation of a store, the subtree of a node, and what makes the store a
  forest: every node is listed by at most one parent and no node is its own descendant.
\<close>

definition child_rel :: "heap \<Rightarrow> (ref \<times> ref) set" where
  "child_rel h = {(p, c). c \<in> set (children (h p))}"

definition subtree :: "heap \<Rightarrow> ref \<Rightarrow> ref set" where
  "subtree h c = {n. (c, n) \<in> (child_rel h)\<^sup>*}"

definition tree_shaped :: "heap \<Rightarrow> bool" where
  "tree_shaped h \<longleftrightarrow>
     (\<forall>p q n. n \<in> set (children (h p)) \<and> n \<in> set (children (h q)) \<longrightarrow> p = q)
     \<and> acyclic (child_rel h)"

section \<open>Definitions used to state the properties of events, animation and update\<close>

text \<open>The handlers registered on a component for an event kind, in registration order.\<close>

definition handlers_of :: "UIComponent \<Rightarrow> UIEvent \<Rightarrow> hid list" where
  "handlers_of self event = (case event_handlers self event of None \<Rightarrow> [] | Some hs \<Rightarrow> hs)"

text \<open>
  A handler semantics for examples: every handler increments a counter, and handler 1
  raises; and a button with handlers 0, 1, 2 registered for a click, in this order.
\<close>

definition demo_handlers :: "hid \<Rightarrow> payload \<Rightarrow> nat \<Rightarrow> nat \<times> string option" where
  "demo_handlers handler pl w = (Suc w, if handler = 1 then Some ''boom'' else None)"


text \<open>The same, except that handler 1 calls \<open>sys.exit()\<close>.\<close>

definition exit_sem :: "nat handler_sem" where
  "exit_sem handler pl w = (Suc w, if handler = 1 then Exited ''SystemExit'' else Returned)"

definition demo_button :: UIComponent where
  "demo_button = on CLICK 2 (on CLICK 1 (on CLICK 0 blank))"

text \<open>\<open>Easing.linear\<close> of \<open>printpal/themes/animations.py\<close>.\<close>

definition easing_linear :: "real \<Rightarrow> real" where
  "easing_linear t = t"

text \<open>
  The progress of a descriptor at a clock reading, the value a tick writes for it
  (\<open>None\<close>: the attribute is left alone), and the keys whose animation is complete.
\<close>

definition progress_of :: "real \<Rightarrow> anim \<Rightarrow> real" where
  "progress_of current_time a = min 1 ((current_time - start_time a) / duration a)"

definition tick_value :: "real \<Rightarrow> anim \<Rightarrow> pyval option" where
  "tick_value current_time a =
     (if progress_of current_time a \<ge> 1 then Some (anim_to a)
      else interpolate (anim_from a) (anim_to a) (easing a (progress_of current_time a)))"

definition completed :: "real \<Rightarrow> (string \<times> anim) list \<Rightarrow> string list" where
  "completed current_time al =
     map fst (filter (\<lambda>(q, a). progress_of current_time a \<ge> 1) al)"

text \<open>
  A value that the slot of a name can hold, and a descriptor that a tick can always
  process: its duration is not zero (a tick divides by it) and every value a tick
  writes for it is one the slot of its key can hold.
\<close>

definition accepts :: "string \<Rightarrow> pyval \<Rightarrow> bool" where
  "accepts name v \<longleftrightarrow> (\<forall>self. setattr name v self \<noteq> None)"

definition writable :: "string \<Rightarrow> anim \<Rightarrow> bool" where
  "writable name a \<longleftrightarrow>
     duration a \<noteq> 0 \<and> (\<forall>now v. tick_value now a = Some v \<longrightarrow> accepts name v)"

text \<open>
  A root (reference 0) with a visible child (reference 1) and a hidden child
  (reference 2), which has a child of its own (reference 3). References 1 and 3 each
  animate their \<open>z_index\<close> from 0 to 100 over four seconds, started at time 0.
\<close>

definition half_hidden_heap :: heap where
  "half_hidden_heap =
     add_child (add_child (add_child
       (blank_heap
          (1 := animate 0 ''z_index'' (Num 100) 4 None blank,
           2 := blank\<lparr>visible_attr := Bool False\<rparr>,
           3 := animate 0 ''z_index'' (Num 100) 4 None blank))
       0 1) 0 2) 2 3"

text \<open>
  The same store after \<open>root.animate('children', [c3], duration=1.0)\<close> at time 0, where
  \<open>c3\<close> is the component of reference 3.
\<close>

definition rewired_heap :: heap where
  "rewired_heap =
     half_hidden_heap (0 := animate 0 ''children'' (Refs [3]) 1 None (half_hidden_heap 0))"


definition children_not_animated :: "heap \<Rightarrow> ref set \<Rightarrow> bool" where
  "children_not_animated h S \<longleftrightarrow>
     (\<forall>x. x \<notin> S \<longrightarrow> ''children'' \<notin> fst ` set (animations (h x)))"

section \<open>Screens and the manager (printpal/core/ui\_screen.py, ui\_manager.py)\<close>

text \<open>
  Screens are objects too: the registry maps names to screen references, and
  \<open>current_screen\<close> and \<open>previous_screen\<close> are references.
\<close>

record UIScreen =
  screen_name :: string
  screen_root :: ref
  initialized :: bool
  is_active :: bool

record UIManager =
  screens :: "string \<rightharpoonup> sref"
  current_screen :: "sref option"
  previous_screen :: "sref option"
  focused_component :: "ref option"

text \<open>
  Everything the manager's operations read and write: the component store, the screen
  objects, the manager, the application state that handlers act on, and the trace.
\<close>

record 'w world =
  comps :: heap
  scrs :: "sref \<Rightarrow> UIScreen"
  mgr :: UIManager
  app :: 'w
  out :: "obs list"

text \<open>\<open>UIScreen.on_enter\<close> and \<open>UIScreen.on_exit\<close>: set the flag and print.\<close>

definition on_enter :: "sref \<Rightarrow> 'w world \<Rightarrow> 'w world" where
  "on_enter s w =
     w\<lparr>scrs := (scrs w)(s := (scrs w s)\<lparr>is_active := True\<rparr>),
       out := out w @ [OnEnterCall s, Printed (''Entering screen: '' @ screen_name (scrs w s))]\<rparr>"

definition on_exit :: "sref \<Rightarrow> 'w world \<Rightarrow> 'w world" where
  "on_exit s w =
     w\<lparr>scrs := (scrs w)(s := (scrs w s)\<lparr>is_active := False\<rparr>),
       out := out w @ [OnExitCall s, Printed (''Exiting screen: '' @ screen_name (scrs w s))]\<rparr>"

text \<open>
  \<open>switch_screen(screen_name, transition=None)\<close>. An unknown name prints and returns.
  A screen object is always truthy, so \<open>if self.current_screen\<close> tests for \<open>None\<close>;
  \<open>if transition\<close> is false for \<open>None\<close> and for the empty string. Nothing here can
  raise, so there is no error result.
\<close>

definition switch_screen :: "string \<Rightarrow> string option \<Rightarrow> 'w world \<Rightarrow> 'w world" where
  "switch_screen name transition w =
     (case screens (mgr w) name of
        None \<Rightarrow> w\<lparr>out := out w @ [Printed (''Screen '' @ [CHR 0x27] @ name @ [CHR 0x27] @ '' not found'')]\<rparr>
      | Some target \<Rightarrow>
          let w1 = (case current_screen (mgr w) of
                      None \<Rightarrow> w
                    | Some cur \<Rightarrow>
                        let we = on_exit cur w
                        in we\<lparr>mgr := (mgr we)\<lparr>previous_screen := Some cur\<rparr>\<rparr>);
              w2 = on_enter target (w1\<lparr>mgr := (mgr w1)\<lparr>current_screen := Some target\<rparr>\<rparr>)
          in (case transition of
                None \<Rightarrow> w2
              | Some t \<Rightarrow> if t = [] then w2 else w2\<lparr>out := out w2 @ [Printed (''Transition: '' @ t)]\<rparr>))"

text \<open>\<open>register_screen\<close>: \<open>self.screens[screen.name] = screen\<close>.\<close>

definition register_screen :: "sref \<Rightarrow> 'w world \<Rightarrow> 'w world" where
  "register_screen s w =
     w\<lparr>mgr := (mgr w)\<lparr>screens := (screens (mgr w))(screen_name (scrs w s) \<mapsto> s)\<rparr>\<rparr>"

text \<open>
  A call \<open>component.emit(event, ...)\<close> made by the manager: the call is recorded, then
  \<open>emit\<close> runs on the component's handler table.
\<close>

definition emit_to :: "'w handler_sem \<Rightarrow> ref \<Rightarrow> UIEvent \<Rightarrow> payload \<Rightarrow> 'w world
    \<Rightarrow> 'w world \<times> error option" where
  "emit_to sem n event pl w =
     (case emit sem (comps w n) event pl (app w, out w @ [EmitCall n event pl]) of
        ((a', tr'), err) \<Rightarrow> (w\<lparr>app := a', out := tr'\<rparr>, err))"

text \<open>
  \<open>screen.handle_event(event, **kwargs)\<close>: the base class does nothing and subclasses
  override it, so its behaviour is a parameter like that of the handlers. It is called
  outside any \<open>try\<close>: whatever it raises leaves \<open>handle_input\<close>.
\<close>

type_synonym 'w screen_sem = "sref \<Rightarrow> UIEvent \<Rightarrow> kwargs \<Rightarrow> 'w \<Rightarrow> 'w \<times> outcome"

definition handle_event :: "'w screen_sem \<Rightarrow> sref \<Rightarrow> UIEvent \<Rightarrow> kwargs \<Rightarrow> 'w world \<Rightarrow> 'w world \<times> error option" where
  "handle_event ssem s event kw w =
     (case ssem s event kw (app w) of
        (a', Returned) \<Rightarrow> (w\<lparr>app := a', out := out w @ [HandleEventCall s event kw]\<rparr>, None)
      | (a', Raised e) \<Rightarrow>
          (w\<lparr>app := a', out := out w @ [HandleEventCall s event kw]\<rparr>, Some (HandlerException e))
      | (a', Exited m) \<Rightarrow>
          (w\<lparr>app := a', out := out w @ [HandleEventCall s event kw]\<rparr>, Some (BaseException m)))"

text \<open>
  \<open>handle_input(event, x=None, y=None, **kwargs)\<close>; \<open>d\<close> is the call depth available
  to \<open>hit_test\<close>. Components compare by identity. An exception that leaves an \<open>emit\<close>
  leaves \<open>handle_input\<close> at that point.
\<close>

definition handle_input :: "'w handler_sem \<Rightarrow> 'w screen_sem \<Rightarrow> nat \<Rightarrow> UIEvent \<Rightarrow> int option \<Rightarrow> int option
    \<Rightarrow> kwargs \<Rightarrow> 'w world \<Rightarrow> 'w world \<times> error option" where
  "handle_input sem ssem d event x y kw w =
     (case current_screen (mgr w) of
        None \<Rightarrow> (w, None)
      | Some cur \<Rightarrow>
          (case (event \<in> set [CLICK, LONG_PRESS], x, y) of
             (True, Some px, Some py) \<Rightarrow>
               (case hit_test d (comps w) (screen_root (scrs w cur)) px py of
                  Inl e \<Rightarrow> (w, Some e)
                | Inr hit \<Rightarrow>
                    (case (if hit \<noteq> focused_component (mgr w)
                           then (case (case focused_component (mgr w) of
                                         None \<Rightarrow> (w, None)
                                       | Some old \<Rightarrow> emit_to sem old BLUR ([], []) w) of
                                   (wa, Some e) \<Rightarrow> (wa, Some e)
                                 | (wa, None) \<Rightarrow>
                                     let wb = wa\<lparr>mgr := (mgr wa)\<lparr>focused_component := hit\<rparr>\<rparr>
                                     in (case focused_component (mgr wb) of
                                           None \<Rightarrow> (wb, None)
                                         | Some new \<Rightarrow> emit_to sem new FOCUS ([], []) wb))
                           else (w, None)) of
                       (w1, Some e) \<Rightarrow> (w1, Some e)
                     | (w1, None) \<Rightarrow>
                         (case (case hit of
                                  None \<Rightarrow> (w1, None)
                                | Some n \<Rightarrow> emit_to sem n event ([], kw) w1) of
                            (w2, Some e) \<Rightarrow> (w2, Some e)
                          | (w2, None) \<Rightarrow> handle_event ssem cur event kw w2)))
           | _ \<Rightarrow> handle_event ssem cur event kw w))"

text \<open>The calls of \<open>emit\<close> and of the screen's \<open>handle_event\<close> in a trace, in order.\<close>

fun calls :: "obs list \<Rightarrow> obs list" where
  "calls [] = []"
| "calls (EmitCall n event pl # tr) = EmitCall n event pl # calls tr"
| "calls (HandleEventCall s event kw # tr) = HandleEventCall s event kw # calls tr"
| "calls (_ # tr) = calls tr"

text \<open>The screen hooks called in a trace.\<close>

fun hooks :: "obs list \<Rightarrow> obs list" where
  "hooks [] = []"
| "hooks (OnExitCall s # tr) = OnExitCall s # hooks tr"
| "hooks (OnEnterCall s # tr) = OnEnterCall s # hooks tr"
| "hooks (_ # tr) = hooks tr"

text \<open>
  A manager over the scenario store: one screen (reference 0, named \<open>main\<close>) whose root
  is component 0, registered and switched to; nothing has focus. Screen handlers and
  component handlers are those of \<open>demo_sem\<close>; the button has a click handler.
\<close>

definition demo_ssem :: "nat screen_sem" where
  "demo_ssem s event kw w = (Suc w, Returned)"

definition demo_world :: "nat world" where
  "demo_world =
     switch_screen ''main'' None
       (register_screen 0
          \<lparr>comps = scenario_heap (1 := on CLICK 0 (scenario_heap 1)),
           scrs = (\<lambda>_. \<lparr>screen_name = ''main'', screen_root = 0, initialized = False,
                         is_active = False\<rparr>),
           mgr = \<lparr>screens = Map.empty, current_screen = None, previous_screen = None,
                   focused_component = None\<rparr>,
           app = 0, out = []\<rparr>)"

text \<open>
  What \<open>getattr\<close> gives for a name after a tick over a dict of descriptors: the value
  written for the descriptor keyed on the name, if any, and else what it gave before.
\<close>

definition tick_get :: "real \<Rightarrow> (string \<times> anim) list \<Rightarrow> UIComponent \<Rightarrow> string \<Rightarrow> pyval option" where
  "tick_get current_time al self name =
     (case map_of al name of
        None \<Rightarrow> getattr name self
      | Some a \<Rightarrow> (case tick_value current_time a of
                    None \<Rightarrow> getattr name self
                  | Some v \<Rightarrow> Some v))"

text \<open>Every descriptor of a dict can be processed by a tick.\<close>

definition all_writable :: "(string \<times> anim) list \<Rightarrow> bool" where
  "all_writable al \<longleftrightarrow> (\<forall>(q, a) \<in> set al. writable q a)"


text \<open>
  None of the handlers of a list leaves by an exception that is not an instance of
  \<open>Exception\<close>, whatever the state it is called in.
\<close>

definition contained :: "'w handler_sem \<Rightarrow> hid list \<Rightarrow> payload \<Rightarrow> bool" where
  "contained sem hs pl \<longleftrightarrow> (\<forall>h \<in> set hs. \<forall>w m. snd (sem h pl w) \<noteq> Exited m)"

section \<open>Theorems\<close>

lemma children_blank [simp]: "children blank = []"
  by (simp add: blank_def new_component_def)

lemma parent_blank [simp]: "parent blank = None"
  by (simp add: blank_def new_component_def)

lemma parent_inv_blank_heap: "parent_inv blank_heap"
  by (simp add: parent_inv_def blank_heap_def)

lemma children_add_child:
  "children (add_child h p c q) = (if q = p then children (h p) @ [c] else children (h q))"
  by (simp add: add_child_def Let_def)

lemma parent_add_child:
  "parent (add_child h p c n) = (if n = c then Some p else parent (h n))"
  by (simp add: add_child_def Let_def)

lemma children_remove_child:
  "children (remove_child h p c q) =
     (if q = p then remove1 c (children (h p)) else children (h q))"
  by (simp add: remove_child_def Let_def remove1_idem)

lemma parent_remove_child:
  "parent (remove_child h p c n) =
     (if n = c \<and> c \<in> set (children (h p)) then None else parent (h n))"
  by (simp add: remove_child_def Let_def)

lemma in_set_remove1_once:
  "count_list xs c \<le> 1 \<Longrightarrow> n \<in> set (remove1 c xs) \<longleftrightarrow> n \<in> set xs \<and> n \<noteq> c"
proof (induction xs)
  case Nil
  then show ?case by simp
next
  case (Cons a xs)
  show ?case
  proof (cases "a = c")
    case True
    with Cons.prems have "count_list xs c = 0" by simp
    then have "c \<notin> set xs" by (simp add: count_list_0_iff)
    with True show ?thesis by auto
  next
    case False
    with Cons show ?thesis by auto
  qed
qed

lemma parent_inv_owned_heap: "parent_inv owned_heap"
  by (auto simp: parent_inv_def owned_heap_def blank_heap_def
        children_add_child parent_add_child)

lemma parent_inv_twice_added: "parent_inv (add_child owned_heap 1 3)"
  by (auto simp: parent_inv_def owned_heap_def blank_heap_def
        children_add_child parent_add_child)

text \<open>
  C2 (as stated, refuted). Node 3 is a child of node 1 and the invariant holds; after
  \<open>add_child\<close> of node 3 under node 2 it no longer holds: node 3 is still listed in the
  children of node 1 while its parent is node 2. And when node 3 has been added to
  node 1 a second time (the invariant still holds), \<open>remove_child\<close> breaks it: the
  parent of node 3 is cleared while one occurrence stays in the children of node 1.
\<close>

theorem C2_readd_breaks_invariant:
  "(parent_inv owned_heap \<and> \<not> parent_inv (add_child owned_heap 2 3))
   \<and> (parent_inv (add_child owned_heap 1 3)
        \<and> \<not> parent_inv (remove_child (add_child owned_heap 1 3) 1 3))"
proof (intro conjI)
  show "parent_inv owned_heap"
    by (rule parent_inv_owned_heap)
next
  have "(3::nat) \<in> set (children (add_child owned_heap 2 3 1))"
    by (simp add: children_add_child owned_heap_def blank_heap_def)
  moreover have "parent (add_child owned_heap 2 3 3) \<noteq> Some 1"
    by (simp add: parent_add_child)
  ultimately show "\<not> parent_inv (add_child owned_heap 2 3)"
    unfolding parent_inv_def by blast
next
  show "parent_inv (add_child owned_heap 1 3)"
    by (rule parent_inv_twice_added)
next
  have "(3::nat) \<in> set (children (remove_child (add_child owned_heap 1 3) 1 3 1))"
    by (simp add: children_remove_child children_add_child owned_heap_def blank_heap_def)
  moreover have "parent (remove_child (add_child owned_heap 1 3) 1 3 3) \<noteq> Some 1"
    by (simp add: parent_remove_child children_add_child)
  ultimately show "\<not> parent_inv (remove_child (add_child owned_heap 1 3) 1 3)"
    unfolding parent_inv_def by blast
qed

text \<open>
  C2 (amended). \<open>add_child p c\<close> preserves the invariant whenever \<open>c\<close> has no parent or
  its parent already is \<open>p\<close>; \<open>remove_child p c\<close> preserves it whenever \<open>c\<close> occurs at
  most once in the children of \<open>p\<close>.
\<close>

theorem C2_invariant_preserved:
  "(parent_inv h \<and> (parent (h c) = None \<or> parent (h c) = Some p)
      \<longrightarrow> parent_inv (add_child h p c))
   \<and> (parent_inv h \<and> count_list (children (h p)) c \<le> 1
      \<longrightarrow> parent_inv (remove_child h p c))"
proof (intro conjI impI)
  assume a: "parent_inv h \<and> (parent (h c) = None \<or> parent (h c) = Some p)"
  then have inv: "\<And>n q. n \<in> set (children (h q)) \<longleftrightarrow> parent (h n) = Some q"
    by (simp add: parent_inv_def)
  show "parent_inv (add_child h p c)"
    unfolding parent_inv_def
  proof (intro allI)
    fix n q
    show "n \<in> set (children (add_child h p c q)) \<longleftrightarrow> parent (add_child h p c n) = Some q"
      using a inv [of n q] inv [of c q]
      by (auto simp: children_add_child parent_add_child)
  qed
next
  assume a: "parent_inv h \<and> count_list (children (h p)) c \<le> 1"
  then have inv: "\<And>n q. n \<in> set (children (h q)) \<longleftrightarrow> parent (h n) = Some q"
    by (simp add: parent_inv_def)
  from a have once: "count_list (children (h p)) c \<le> 1" by simp
  show "parent_inv (remove_child h p c)"
    unfolding parent_inv_def
  proof (intro allI)
    fix n q
    show "n \<in> set (children (remove_child h p c q))
            \<longleftrightarrow> parent (remove_child h p c n) = Some q"
      using inv [of n q] inv [of c q] inv [of c p] inv [of n p]
      by (auto simp: children_remove_child parent_remove_child in_set_remove1_once [OF once])
  qed
qed

theorem C2_invariant_preserved_witness:
  "parent_inv (add_child blank_heap 1 3) \<and> parent_inv (remove_child owned_heap 1 3)"
proof -
  have "parent_inv blank_heap \<and> (parent (blank_heap 3) = None \<or> parent (blank_heap 3) = Some 1)"
    by (simp add: parent_inv_blank_heap) (simp add: blank_heap_def)
  moreover have "parent_inv owned_heap \<and> count_list (children (owned_heap 1)) 3 \<le> 1"
    by (simp add: parent_inv_owned_heap)
       (simp add: owned_heap_def blank_heap_def children_add_child)
  ultimately show ?thesis
    using C2_invariant_preserved [where h = blank_heap and p = 1 and c = 3]
      C2_invariant_preserved [where h = owned_heap and p = 1 and c = 3]
    by blast
qed

text \<open>
  C6 (as stated, refuted). When node 3 already is a child of node 1, \<open>add_child\<close>
  appends a second occurrence and \<open>remove_child\<close> deletes only the first one: node 3
  is still a member of the children of node 1 afterwards.
\<close>

theorem C6_duplicate_child_remains:
  "3 \<in> set (children (remove_child (add_child owned_heap 1 3) 1 3 1))"
  by (simp add: children_remove_child children_add_child owned_heap_def blank_heap_def)

text \<open>
  C6 (amended). After \<open>p.add_child(c)\<close> and then \<open>p.remove_child(c)\<close> the parent
  of \<open>c\<close> is \<open>None\<close> for every \<open>p\<close> and \<open>c\<close>, and \<open>c\<close> is not a member of
  the children of \<open>p\<close> provided it was not one before the two calls.
\<close>

theorem C6_add_then_remove:
  "parent (remove_child (add_child h p c) p c c) = None
   \<and> (c \<notin> set (children (h p))
        \<longrightarrow> c \<notin> set (children (remove_child (add_child h p c) p c p)))"
  by (simp add: parent_remove_child children_remove_child children_add_child
        parent_add_child remove1_append)

theorem C6_add_then_remove_witness:
  "parent (remove_child (add_child blank_heap 1 3) 1 3 3) = None
   \<and> 3 \<notin> set (children (remove_child (add_child blank_heap 1 3) 1 3 1))"
proof -
  have "3 \<notin> set (children (blank_heap 1))"
    by (simp add: blank_heap_def)
  then show ?thesis
    using C6_add_then_remove [where h = blank_heap and p = 1 and c = 3] by blast
qed

lemma find_append_case:
  "find P (xs @ ys) = (case find P xs of None \<Rightarrow> find P ys | Some x \<Rightarrow> Some x)"
  by (induction xs) auto

lemma find_SomeD_set: "find P xs = Some c \<Longrightarrow> c \<in> set xs \<and> P c"
  by (induction xs) (auto split: if_splits)

lemma find_rev_insort_key:
  fixes f :: "'a \<Rightarrow> real"
  assumes "sorted (map f zs)"
  shows "find P (rev (insort_key f x zs)) =
     (case find P (rev zs) of
        None \<Rightarrow> if P x then Some x else None
      | Some c \<Rightarrow> if P x \<and> f c < f x then Some x else Some c)"
  using assms
proof (induction zs)
  case Nil
  then show ?case by simp
next
  case (Cons y ys)
  show ?case
  proof (cases "f x \<le> f y")
    case True
    have "\<And>c. find P (rev (y # ys)) = Some c \<Longrightarrow> f x \<le> f c"
    proof -
      fix c assume "find P (rev (y # ys)) = Some c"
      then have "c \<in> set (y # ys)" using find_SomeD_set [of P "rev (y # ys)" c] by simp
      with Cons.prems have "f y \<le> f c" by auto
      with True show "f x \<le> f c" by simp
    qed
    with True show ?thesis
      by (auto simp: find_append_case split: option.splits)
  next
    case False
    from Cons have IH: "find P (rev (insort_key f x ys)) =
     (case find P (rev ys) of
        None \<Rightarrow> if P x then Some x else None
      | Some c \<Rightarrow> if P x \<and> f c < f x then Some x else Some c)" by simp
    from False show ?thesis
      by (auto simp: find_append_case IH split: option.splits)
  qed
qed

lemma find_rev_sort_key:
  fixes f :: "'a \<Rightarrow> real"
  shows "find P (rev (sort_key f cs)) = top_candidate P f cs"
  by (induction cs) (simp_all add: find_rev_insort_key)

lemma top_candidate_SomeD: "top_candidate P f xs = Some c \<Longrightarrow> c \<in> set xs \<and> P c"
  by (induction xs arbitrary: c) (auto split: option.splits if_splits)

lemma top_candidate_index:
  assumes "i < length cs" and "P (cs ! i)"
    and "\<forall>j < length cs. P (cs ! j) \<longrightarrow> f (cs ! j) < f (cs ! i) \<or> (f (cs ! j) = f (cs ! i) \<and> j \<le> i)"
  shows "top_candidate P f cs = Some (cs ! i)"
  using assms
proof (induction cs arbitrary: i)
  case Nil
  then show ?case by simp
next
  case (Cons x xs)
  show ?case
  proof (cases i)
    case 0
    have lt: "\<And>c. top_candidate P f xs = Some c \<Longrightarrow> f c < f x"
    proof -
      fix c assume "top_candidate P f xs = Some c"
      then have "c \<in> set xs" "P c" using top_candidate_SomeD by fastforce+
      then obtain j where j: "j < length xs" "xs ! j = c" by (auto simp: in_set_conv_nth)
      with Cons.prems(3) [rule_format, of "Suc j"] 0 \<open>P c\<close> show "f c < f x" by auto
    qed
    with 0 Cons.prems(2) show ?thesis by (auto split: option.splits)
  next
    case (Suc k)
    with Cons.prems have k: "k < length xs" "P (xs ! k)" by auto
    have "\<forall>j < length xs. P (xs ! j) \<longrightarrow> f (xs ! j) < f (xs ! k) \<or> (f (xs ! j) = f (xs ! k) \<and> j \<le> k)"
    proof (intro allI impI)
      fix j assume "j < length xs" "P (xs ! j)"
      with Cons.prems(3) [rule_format, of "Suc j"] Suc
      show "f (xs ! j) < f (xs ! k) \<or> (f (xs ! j) = f (xs ! k) \<and> j \<le> k)" by auto
    qed
    with Cons.IH k have "top_candidate P f xs = Some (xs ! k)" by blast
    moreover from Cons.prems(3) [rule_format, of 0] Suc have "P x \<Longrightarrow> f x \<le> f (xs ! k)" by auto
    ultimately show ?thesis using Suc by auto
  qed
qed

lemma hit_test_not_candidate:
  "\<not> candidate h px py c \<Longrightarrow> hit_test (Suc d) h c px py = Inr None"
  by (auto simp: candidate_def)

lemma hit_test_candidate:
  "candidate h px py c \<Longrightarrow> hit_test (Suc d) h c px py \<noteq> Inr None"
  by (auto simp: candidate_def split: sum.splits option.splits)

lemma hit_children_find:
  "hit_children (\<lambda>c. hit_test (Suc d) h c px py) zs =
     (case find (candidate h px py) zs of
        None \<Rightarrow> Inr None
      | Some c \<Rightarrow> hit_test (Suc d) h c px py)"
proof (induction zs)
  case Nil
  then show ?case by simp
next
  case (Cons z zs)
  show ?case
  proof (cases "candidate h px py z")
    case True
    from hit_test_candidate [OF True, of d] show ?thesis using True
      by (auto split: sum.splits option.splits)
  next
    case False
    from hit_test_not_candidate [OF False, of d] Cons show ?thesis using False by simp
  qed
qed

lemma hit_test_top_candidate:
  "hit_test (Suc (Suc d)) h p px py =
     (if \<not> visible (h p) \<or> \<not> enabled (h p) then Inr None
      else if contains (rect (h p)) px py then
        (case top_candidate (candidate h px py) (\<lambda>c. z_index (h c)) (children (h p)) of
           None \<Rightarrow> Inr (Some p)
         | Some c \<Rightarrow> hit_test (Suc d) h c px py)
      else Inr None)"
proof -
  let ?top = "top_candidate (candidate h px py) (\<lambda>c. z_index (h c)) (children (h p))"
  have key: "(case hit_test (Suc d) h c px py of Inl e \<Rightarrow> Inl e | Inr None \<Rightarrow> Inr (Some p)
        | Inr (Some r) \<Rightarrow> Inr (Some r)) = hit_test (Suc d) h c px py"
    if "?top = Some c" for c
  proof -
    from that have "candidate h px py c" using top_candidate_SomeD by fastforce
    from hit_test_candidate [OF this, of d] show ?thesis
      by (cases "hit_test (Suc d) h c px py") (auto split: option.splits simp del: hit_test.simps)
  qed
  have "hit_children (\<lambda>c. hit_test (Suc d) h c px py)
          (rev (sort_key (\<lambda>c. z_index (h c)) (children (h p)))) =
        (case ?top of None \<Rightarrow> Inr None | Some c \<Rightarrow> hit_test (Suc d) h c px py)"
    by (simp only: hit_children_find find_rev_sort_key)
  then show ?thesis
    using key by (subst hit_test.simps(2)) (simp split: option.splits del: hit_test.simps)
qed

lemmas scenario_defs = scenario_heap_def add_child_def blank_heap_def new_component_def
  contains_def right_def bottom_def blank_def visible_def enabled_def

lemma scenario_inside: "hit_test (Suc (Suc d)) scenario_heap 0 30 20 = Inr (Some 1)"
  by (simp add: scenario_defs)

lemma scenario_outside: "hit_test (Suc (Suc d)) scenario_heap 0 200 200 = Inr (Some 0)"
  by (simp add: scenario_defs)

text \<open>
  C1 (amended). In the scenario, \<open>root.hit_test(30, 20)\<close> returns the button, and
  \<open>root.hit_test(200, 200)\<close> returns the root container itself: the point lies inside
  the root's rectangle and no child resolves, so \<open>self\<close> is returned. This holds at
  every call depth that admits the two nested calls.
\<close>

theorem C1_scenario:
  "hit_test (Suc (Suc d)) scenario_heap 0 30 20 = Inr (Some 1)
   \<and> hit_test (Suc (Suc d)) scenario_heap 0 200 200 = Inr (Some 0)"
  by (simp only: scenario_inside scenario_outside)

text \<open>
  C1 (as stated, refuted). At Python's default depth limit, \<open>root.hit_test(200, 200)\<close>
  in the scenario returns the root (reference 0), not \<open>None\<close>.
\<close>

theorem C1_outside_button_hits_root:
  "hit_test 1000 scenario_heap 0 200 200 = Inr (Some 0)"
  using scenario_outside [of 998] by (simp del: hit_test.simps)

lemma negative_miss:
  "hit_test (Suc d) negative_heap 0
        (rect_x (rect (negative_heap 0)) + rect_width (rect (negative_heap 0)))
        (rect_y (rect (negative_heap 0)) + rect_height (rect (negative_heap 0))) = Inr None"
  by (simp add: negative_heap_def scenario_defs)

text \<open>
  C10 (as stated, refuted). A visible, enabled, childless component whose rectangle is
  (0, 0, -1, 0) is not hit at (x + width, y + height): \<open>contains\<close> requires
  \<open>x \<le> px\<close>, which fails when the width is negative.
\<close>

theorem C10_negative_width_misses:
  "visible (negative_heap 0) \<and> enabled (negative_heap 0) \<and> children (negative_heap 0) = []
   \<and> hit_test 1000 negative_heap 0
        (rect_x (rect (negative_heap 0)) + rect_width (rect (negative_heap 0)))
        (rect_y (rect (negative_heap 0)) + rect_height (rect (negative_heap 0))) = Inr None"
proof -
  have "visible (negative_heap 0) \<and> enabled (negative_heap 0) \<and> children (negative_heap 0) = []"
    by (simp add: negative_heap_def scenario_defs)
  then show ?thesis
    using negative_miss [of 999] by (simp del: hit_test.simps)
qed

text \<open>
  C10 (amended). For every visible, enabled component with no children whose rectangle
  has non-negative width and height, \<open>hit_test(x + width, y + height)\<close> returns the
  component itself, and on the row \<open>y\<close> exactly \<open>width + 1\<close> horizontal positions
  hit it: the right and bottom edges are inclusive.
\<close>

theorem C10_inclusive_edges:
  assumes "visible (h a)" and "enabled (h a)" and "children (h a) = []"
    and "0 \<le> rect_width (rect (h a))" and "0 \<le> rect_height (rect (h a))"
  shows "hit_test (Suc d) h a (rect_x (rect (h a)) + rect_width (rect (h a)))
           (rect_y (rect (h a)) + rect_height (rect (h a))) = Inr (Some a)
         \<and> card {px. hit_test (Suc d) h a px (rect_y (rect (h a))) = Inr (Some a)}
             = nat (rect_width (rect (h a))) + 1"
proof
  from assms show "hit_test (Suc d) h a (rect_x (rect (h a)) + rect_width (rect (h a)))
           (rect_y (rect (h a)) + rect_height (rect (h a))) = Inr (Some a)"
    by (simp add: contains_def right_def bottom_def)
next
  let ?r = "rect (h a)"
  from assms have "{px. hit_test (Suc d) h a px (rect_y ?r) = Inr (Some a)}
      = {rect_x ?r .. rect_x ?r + rect_width ?r}"
    by (auto simp: contains_def right_def bottom_def)
  with assms(4) show "card {px. hit_test (Suc d) h a px (rect_y ?r) = Inr (Some a)}
      = nat (rect_width ?r) + 1"
    by simp
qed

theorem C10_inclusive_edges_witness:
  "hit_test (Suc 0) scenario_heap 1 60 40 = Inr (Some 1)
   \<and> card {px. hit_test (Suc 0) scenario_heap 1 px 10 = Inr (Some 1)} = 51"
proof -
  have "visible (scenario_heap 1)" "enabled (scenario_heap 1)" "children (scenario_heap 1) = []"
    "0 \<le> rect_width (rect (scenario_heap 1))" "0 \<le> rect_height (rect (scenario_heap 1))"
    "rect (scenario_heap 1) = \<lparr>rect_x = 10, rect_y = 10, rect_width = 50, rect_height = 30\<rparr>"
    by (simp_all add: scenario_heap_def add_child_def blank_heap_def new_component_def blank_def
          visible_def enabled_def)
  then show ?thesis
    using C10_inclusive_edges [where h = scenario_heap and a = 1 and d = 0] by simp
qed

lemma nested_hit: "hit_test (Suc (Suc (Suc d))) nested_heap 0 5 5 = Inr (Some 2)"
  by (simp add: nested_heap_def scenario_defs)

lemma hidden_parent_hit: "hit_test (Suc d) hidden_parent_heap 0 5 5 = Inr None"
  by (simp add: hidden_parent_heap_def visible_def)

text \<open>
  C5 (as stated, refuted). With every sibling visible, enabled and over the point, the
  result is the child (reference 2) of the topmost sibling, not that sibling
  (reference 1); and when the parent itself is hidden the result is \<open>None\<close>.
\<close>

theorem C5_descendant_or_nothing:
  "hit_test 1000 nested_heap 0 5 5 = Inr (Some 2)
   \<and> hit_test 1000 hidden_parent_heap 0 5 5 = Inr None"
  using nested_hit [of 997] hidden_parent_hit [of 999] by (simp del: hit_test.simps)

text \<open>
  C5 (amended). For a parent that is itself visible, enabled and contains the point,
  let \<open>c\<close> be the child at position \<open>i\<close> that is visible, enabled and contains the
  point, such that every other such child has a smaller z-index, or the same z-index
  and an earlier position. Then \<open>hit_test\<close> on the parent returns exactly what
  \<open>hit_test\<close> on \<open>c\<close> returns (a node of the subtree of \<open>c\<close>), which is \<open>c\<close>
  itself when \<open>c\<close> has no children.
\<close>

theorem C5_topmost_sibling:
  assumes "visible (h p)" and "enabled (h p)" and "contains (rect (h p)) px py"
    and "i < length (children (h p))"
    and "candidate h px py (children (h p) ! i)"
    and "\<forall>j < length (children (h p)). candidate h px py (children (h p) ! j) \<longrightarrow>
           z_index (h (children (h p) ! j)) < z_index (h (children (h p) ! i))
           \<or> (z_index (h (children (h p) ! j)) = z_index (h (children (h p) ! i)) \<and> j \<le> i)"
  shows "hit_test (Suc (Suc d)) h p px py = hit_test (Suc d) h (children (h p) ! i) px py
         \<and> (children (h (children (h p) ! i)) = []
              \<longrightarrow> hit_test (Suc (Suc d)) h p px py = Inr (Some (children (h p) ! i)))"
proof -
  let ?c = "children (h p) ! i"
  have top: "top_candidate (candidate h px py) (\<lambda>c. z_index (h c)) (children (h p)) = Some ?c"
    using assms(4-6) by (intro top_candidate_index) auto
  have eq: "hit_test (Suc (Suc d)) h p px py = hit_test (Suc d) h ?c px py"
    using assms(1-3) top by (simp only: hit_test_top_candidate) simp
  moreover have "hit_test (Suc d) h ?c px py = Inr (Some ?c)" if "children (h ?c) = []"
    using that assms(5) by (simp add: candidate_def)
  ultimately show ?thesis by simp
qed

theorem C5_topmost_sibling_witness:
  "hit_test (Suc (Suc 0)) siblings_heap 0 5 5 = Inr (Some 2)"
proof -
  have cs: "children (siblings_heap 0) = [1, 2, 3]"
    and z: "z_index (siblings_heap 1) = 2" "z_index (siblings_heap 2) = 2"
      "z_index (siblings_heap 3) = 1"
    and leaf: "children (siblings_heap 2) = []"
    and root: "visible (siblings_heap 0)" "enabled (siblings_heap 0)"
      "contains (rect (siblings_heap 0)) 5 5"
    and cand: "candidate siblings_heap 5 5 2"
    by (simp_all add: siblings_heap_def candidate_def scenario_defs)
  have "\<forall>j < length (children (siblings_heap 0)).
          candidate siblings_heap 5 5 (children (siblings_heap 0) ! j) \<longrightarrow>
          z_index (siblings_heap (children (siblings_heap 0) ! j))
            < z_index (siblings_heap (children (siblings_heap 0) ! 1))
          \<or> (z_index (siblings_heap (children (siblings_heap 0) ! j))
               = z_index (siblings_heap (children (siblings_heap 0) ! 1)) \<and> j \<le> 1)"
    using z by (simp add: cs less_Suc_eq numeral_3_eq_3 all_conj_distrib eval_nat_numeral)
  moreover have nth: "children (siblings_heap 0) ! 1 = 2"
    and len: "1 < length (children (siblings_heap 0))"
    by (simp_all add: cs)
  moreover have "candidate siblings_heap 5 5 (children (siblings_heap 0) ! 1)"
    and "children (siblings_heap (children (siblings_heap 0) ! 1)) = []"
    by (simp_all only: nth cand leaf)
  ultimately have "hit_test (Suc (Suc 0)) siblings_heap 0 5 5
      = Inr (Some (children (siblings_heap 0) ! 1))"
    using root
      C5_topmost_sibling [where h = siblings_heap and p = 0 and i = 1 and px = 5 and py = 5
        and d = 0]
    by blast
  then show ?thesis by (simp only: nth)
qed

text \<open>Registration order is list order: \<open>on\<close> appends.\<close>

lemma handlers_of_on:
  "handlers_of (on event handler self) event' =
     (if event' = event then handlers_of self event @ [handler] else handlers_of self event')"
  by (simp add: handlers_of_def on_def)

lemma invoked_append: "invoked (xs @ ys) = invoked xs @ invoked ys"
  by (induction xs rule: invoked.induct) simp_all

lemma raised_append: "raised (xs @ ys) = raised xs @ raised ys"
  by (induction xs rule: raised.induct) simp_all

lemma printed_append: "printed (xs @ ys) = printed xs @ printed ys"
  by (induction xs rule: printed.induct) simp_all

lemma calls_append: "calls (xs @ ys) = calls xs @ calls ys"
  by (induction xs rule: calls.induct) simp_all

lemma hooks_append: "hooks (xs @ ys) = hooks xs @ hooks ys"
  by (induction xs rule: hooks.induct) simp_all

text \<open>
  C8. \<open>switch_screen\<close> with a name that is not in the registry leaves the manager
  (\<open>current_screen\<close>, \<open>previous_screen\<close>, the registry, the focus), the screens, the
  components and the application state unchanged, calls no \<open>on_exit\<close> or \<open>on_enter\<close>
  hook, and only prints the message; it has no error result.
\<close>

theorem C8_switch_unknown:
  assumes "screens (mgr w) name = None"
  shows "mgr (switch_screen name transition w) = mgr w
     \<and> scrs (switch_screen name transition w) = scrs w
     \<and> comps (switch_screen name transition w) = comps w
     \<and> app (switch_screen name transition w) = app w
     \<and> hooks (out (switch_screen name transition w)) = hooks (out w)
     \<and> out (switch_screen name transition w) =
         out w @ [Printed (''Screen '' @ [CHR 0x27] @ name @ [CHR 0x27] @ '' not found'')]"
  using assms by (simp add: switch_screen_def hooks_append)

lemma demo_world_facts:
  "current_screen (mgr demo_world) = Some 0"
  "focused_component (mgr demo_world) = None"
  "screens (mgr demo_world) ''other'' = None"
  "screens (mgr demo_world) ''main'' = Some 0"
  "comps demo_world = scenario_heap (1 := on CLICK 0 (scenario_heap 1))"
  "screen_root (scrs demo_world 0) = 0"
  "calls (out demo_world) = []"
  "hooks (out demo_world) = [OnEnterCall 0]"
  by (simp_all add: demo_world_def switch_screen_def register_screen_def on_enter_def Let_def)

theorem C8_switch_unknown_witness:
  "current_screen (mgr (switch_screen ''other'' None demo_world)) = Some 0
   \<and> previous_screen (mgr (switch_screen ''other'' None demo_world)) = None
   \<and> hooks (out (switch_screen ''other'' None demo_world)) = [OnEnterCall 0]"
  using C8_switch_unknown [where w = demo_world and name = "''other''" and transition = None]
  by (simp add: demo_world_facts)
     (simp add: demo_world_def switch_screen_def register_screen_def on_enter_def Let_def)

lemma field_slot_name:
  "map_of field_slots n = Some s \<Longrightarrow> map_of field_slots m = Some s \<Longrightarrow> n = m"
  by (auto simp: field_slots_def split: if_splits)

lemma field_slot_kind:
  "map_of field_slots n = Some s \<Longrightarrow> s \<noteq> MethodSlot \<and> (\<forall>a. s \<noteq> AttrSlot a)"
  by (auto simp: field_slots_def split: if_splits)

lemma slot_of_field: "map_of field_slots n = Some s \<Longrightarrow> slot_of n = s"
  by (simp add: slot_of_def)

lemma slot_of_other:
  "map_of field_slots n = None \<Longrightarrow> slot_of n \<noteq> MethodSlot \<Longrightarrow> slot_of n = AttrSlot n"
  by (simp add: slot_of_def split: if_splits)

lemma slot_of_inj:
  assumes eq: "slot_of n = slot_of m" and nm: "slot_of n \<noteq> MethodSlot"
  shows "n = m"
proof -
  from eq nm have mm: "slot_of m \<noteq> MethodSlot" by simp
  consider (ff) s t where "map_of field_slots n = Some s" "map_of field_slots m = Some t"
    | (fo) s where "map_of field_slots n = Some s" "map_of field_slots m = None"
    | (of) t where "map_of field_slots n = None" "map_of field_slots m = Some t"
    | (oo) "map_of field_slots n = None" "map_of field_slots m = None"
    by (cases "map_of field_slots n"; cases "map_of field_slots m") auto
  then show ?thesis
  proof cases
    case ff
    with eq have "s = t" using slot_of_field by metis
    with ff show ?thesis using field_slot_name by blast
  next
    case fo
    from slot_of_field [OF fo(1)] slot_of_other [OF fo(2) mm] eq field_slot_kind [OF fo(1)]
    show ?thesis by auto
  next
    case "of"
    from slot_of_field [OF "of"(2)] slot_of_other [OF "of"(1) nm] eq field_slot_kind [OF "of"(2)]
    show ?thesis by auto
  next
    case oo
    have "AttrSlot n = slot_of n" using slot_of_other [OF oo(1) nm] by (rule sym)
    also have "\<dots> = slot_of m" by (rule eq)
    also have "\<dots> = AttrSlot m" by (rule slot_of_other [OF oo(2) mm])
    finally show ?thesis by (simp only: slot.inject)
  qed
qed

lemma setattr_slot_get:
  "setattr_slot s v self = Some self' \<Longrightarrow>
     s \<noteq> MethodSlot \<and> getattr_slot s self' = Some v
     \<and> (\<forall>t. t \<noteq> s \<longrightarrow> getattr_slot t self' = getattr_slot t self)
     \<and> animations self' = animations self"
proof (induction s v self rule: setattr_slot.induct)
  case (1 r self)
  then have e: "self' = self\<lparr>rect := r\<rparr>" by simp
  have "getattr_slot t self' = getattr_slot t self" if "t \<noteq> RectSlot" for t
    using that by (cases t) (simp_all add: e)
  then show ?case by (simp add: e)
next
  case (2 v self)
  then have e: "self' = self\<lparr>visible_attr := v\<rparr>" by simp
  have "getattr_slot t self' = getattr_slot t self" if "t \<noteq> VisibleSlot" for t
    using that by (cases t) (simp_all add: e)
  then show ?case by (simp add: e)
next
  case (3 v self)
  then have e: "self' = self\<lparr>enabled_attr := v\<rparr>" by simp
  have "getattr_slot t self' = getattr_slot t self" if "t \<noteq> EnabledSlot" for t
    using that by (cases t) (simp_all add: e)
  then show ?case by (simp add: e)
next
  case (4 r self)
  then have e: "self' = self\<lparr>z_index := r\<rparr>" by simp
  have "getattr_slot t self' = getattr_slot t self" if "t \<noteq> ZIndexSlot" for t
    using that by (cases t) (simp_all add: e)
  then show ?case by (simp add: e)
next
  case (5 p self)
  then have e: "self' = self\<lparr>parent := Some p\<rparr>" by simp
  have "getattr_slot t self' = getattr_slot t self" if "t \<noteq> ParentSlot" for t
    using that by (cases t) (simp_all add: e)
  then show ?case by (simp add: e)
next
  case (6 cs self)
  then have e: "self' = self\<lparr>children := cs\<rparr>" by simp
  have "getattr_slot t self' = getattr_slot t self" if "t \<noteq> ChildrenSlot" for t
    using that by (cases t) (simp_all add: e)
  then show ?case by (simp add: e)
next
  case (7 r self)
  then have e: "self' = self\<lparr>animation_progress := r\<rparr>" by simp
  have "getattr_slot t self' = getattr_slot t self" if "t \<noteq> ProgressSlot" for t
    using that by (cases t) (simp_all add: e)
  then show ?case by (simp add: e)
next
  case (8 name v self)
  then have e: "self' = self\<lparr>attrs := (attrs self)(name \<mapsto> v)\<rparr>" by simp
  have "getattr_slot t self' = getattr_slot t self" if "t \<noteq> AttrSlot name" for t
    using that by (cases t) (simp_all add: e)
  then show ?case by (simp add: e)
qed simp_all

lemma setattr_get:
  assumes "setattr q v self = Some self'"
  shows "getattr name self' = (if name = q then Some v else getattr name self)"
    and "animations self' = animations self"
proof -
  from assms have s: "setattr_slot (slot_of q) v self = Some self'" by (simp add: setattr_def)
  note g = setattr_slot_get [OF s]
  show "animations self' = animations self" using g by simp
  show "getattr name self' = (if name = q then Some v else getattr name self)"
  proof (cases "name = q")
    case True
    with g show ?thesis by (simp add: getattr_def)
  next
    case False
    have "slot_of name \<noteq> slot_of q"
    proof
      assume "slot_of name = slot_of q"
      then have "slot_of q = slot_of name" by simp
      from slot_of_inj [OF this] g False show False by simp
    qed
    with g False show ?thesis by (simp add: getattr_def)
  qed
qed

lemma anim_loop_result:
  assumes "distinct (map fst al)" and "all_writable al"
  shows "\<exists>self'. anim_loop now al self rm = (self', rm @ completed now al, None)
           \<and> animations self' = animations self
           \<and> (\<forall>name. getattr name self' = tick_get now al self name)"
  using assms
proof (induction al arbitrary: self rm)
  case Nil
  show ?case by (simp add: completed_def tick_get_def)
next
  case (Cons x al)
  obtain q a where x: "x = (q, a)" by (cases x)
  from Cons.prems x have d: "distinct (map fst al)" and q: "q \<notin> fst ` set al"
    and w: "all_writable al" and wa: "writable q a"
    by (auto simp: all_writable_def)
  from q have mq: "map_of al q = None" by (simp add: map_of_eq_None_iff)
  from wa have da: "duration a \<noteq> 0" by (simp add: writable_def)
  show ?case
  proof (cases "tick_value now a")
    case None
    then have lt: "\<not> 1 \<le> progress_of now a"
      and ip: "interpolate (anim_from a) (anim_to a) (easing a (progress_of now a)) = None"
      by (simp_all add: tick_value_def split: if_splits)
    from Cons.IH [OF d w, of self rm] obtain self' where
      r: "anim_loop now al self rm = (self', rm @ completed now al, None)"
      and an: "animations self' = animations self"
      and g: "\<And>name. getattr name self' = tick_get now al self name"
      by auto
    have "anim_loop now (x # al) self rm = (self', rm @ completed now (x # al), None)"
      using da lt ip r x by (simp add: Let_def progress_of_def completed_def)
    moreover have "getattr name self' = tick_get now (x # al) self name" for name
      using g [of name] None mq x by (simp add: tick_get_def)
    ultimately show ?thesis using an by blast
  next
    case (Some v)
    with wa have "accepts q v" by (auto simp: writable_def)
    then obtain self1 where s1: "setattr q v self = Some self1"
      by (auto simp: accepts_def)
    note g1 = setattr_get [OF s1]
    show ?thesis
    proof (cases "1 \<le> progress_of now a")
      case True
      with Some have v: "v = anim_to a" by (simp add: tick_value_def)
      from Cons.IH [OF d w, of self1 "rm @ [q]"] obtain self' where
        r: "anim_loop now al self1 (rm @ [q]) = (self', (rm @ [q]) @ completed now al, None)"
        and an: "animations self' = animations self1"
        and g: "\<And>name. getattr name self' = tick_get now al self1 name"
        by auto
      have "anim_loop now (x # al) self rm = (self', rm @ completed now (x # al), None)"
        using da True s1 r x v by (simp add: Let_def progress_of_def completed_def)
      moreover have "getattr name self' = tick_get now (x # al) self name" for name
        using g [of name] Some mq x g1(1)
        by (simp add: tick_get_def split: option.splits)
      ultimately show ?thesis using an g1(2) by auto
    next
      case False
      with Some have ip: "interpolate (anim_from a) (anim_to a) (easing a (progress_of now a)) = Some v"
        by (simp add: tick_value_def)
      from Cons.IH [OF d w, of self1 rm] obtain self' where
        r: "anim_loop now al self1 rm = (self', rm @ completed now al, None)"
        and an: "animations self' = animations self1"
        and g: "\<And>name. getattr name self' = tick_get now al self1 name"
        by auto
      have "anim_loop now (x # al) self rm = (self', rm @ completed now (x # al), None)"
        using da False s1 r x ip by (simp add: Let_def progress_of_def completed_def)
      moreover have "getattr name self' = tick_get now (x # al) self name" for name
        using g [of name] Some mq x g1(1)
        by (simp add: tick_get_def split: option.splits)
      ultimately show ?thesis using an g1(2) by auto
    qed
  qed
qed

lemma getattr_animations_update [simp]:
  "getattr name (self\<lparr>animations := al\<rparr>) = getattr name self"
  by (cases "slot_of name") (simp_all add: getattr_def)

lemma slot_of_progress: "slot_of name = ProgressSlot \<longleftrightarrow> name = ''animation_progress''"
proof
  assume "slot_of name = ProgressSlot"
  moreover have "slot_of ''animation_progress'' = ProgressSlot"
    by (simp add: slot_of_def field_slots_def)
  ultimately have "slot_of ''animation_progress'' = slot_of name" by simp
  then have "''animation_progress'' = name" by (rule slot_of_inj) (simp add: slot_of_def field_slots_def)
  then show "name = ''animation_progress''" by simp
next
  assume "name = ''animation_progress''"
  then show "slot_of name = ProgressSlot" by (simp add: slot_of_def field_slots_def)
qed

lemma getattr_progress_update:
  "getattr name (self\<lparr>animation_progress := x\<rparr>) =
     (if name = ''animation_progress'' then Some (Num x) else getattr name self)"
  using slot_of_progress [of name]
  by (cases "slot_of name") (auto simp: getattr_def)

lemma map_of_fold_delete:
  "map_of (fold AList.delete ks al) p = (if p \<in> set ks then None else map_of al p)"
  by (induction ks arbitrary: al) (simp_all add: delete_conv')

lemma in_completed:
  "distinct (map fst al) \<Longrightarrow>
     p \<in> set (completed now al) \<longleftrightarrow> (\<exists>a. map_of al p = Some a \<and> progress_of now a \<ge> 1)"
  by (force simp: completed_def)

lemma update_animations_result:
  assumes "distinct (map fst (animations self))" and "all_writable (animations self)"
  shows "snd (update_animations dt now self) = None"
    and "animations (fst (update_animations dt now self)) =
           fold AList.delete (completed now (animations self)) (animations self)"
    and "getattr name (fst (update_animations dt now self)) =
           tick_get now (animations self)
             (self\<lparr>animation_progress := frac (animation_progress self + dt)\<rparr>) name"
proof -
  let ?s1 = "self\<lparr>animation_progress := frac (animation_progress self + dt)\<rparr>"
  from anim_loop_result [OF assms, of now ?s1 "[]"] obtain self' where
    r: "anim_loop now (animations self) ?s1 [] = (self', completed now (animations self), None)"
    and an: "animations self' = animations self"
    and g: "\<And>name. getattr name self' = tick_get now (animations self) ?s1 name"
    by auto
  from r an show "snd (update_animations dt now self) = None"
    and "animations (fst (update_animations dt now self)) =
           fold AList.delete (completed now (animations self)) (animations self)"
    by (simp_all add: update_animations_def Let_def)
  from r g [of name] show "getattr name (fst (update_animations dt now self)) =
           tick_get now (animations self) ?s1 name"
    by (simp add: update_animations_def Let_def)
qed

lemma set_fold_delete_subset: "set (fold AList.delete ks al) \<subseteq> set al"
proof (induction ks arbitrary: al)
  case Nil
  show ?case by simp
next
  case (Cons k ks)
  have "set (fold AList.delete ks (AList.delete k al)) \<subseteq> set (AList.delete k al)"
    by (rule Cons)
  also have "\<dots> \<subseteq> set al" by (auto simp: AList.delete_eq)
  finally show ?case by simp
qed

lemma distinct_fold_delete:
  "distinct (map fst al) \<Longrightarrow> distinct (map fst (fold AList.delete ks al))"
  by (induction ks arbitrary: al) (simp_all add: distinct_delete)

lemma update_animations_keeps_ok:
  assumes "distinct (map fst (animations self))" and "all_writable (animations self)"
  shows "distinct (map fst (animations (fst (update_animations dt now self))))"
    and "all_writable (animations (fst (update_animations dt now self)))"
  using assms set_fold_delete_subset [of "completed now (animations self)" "animations self"]
  by (auto simp: update_animations_result(2) [OF assms] distinct_fold_delete all_writable_def)

lemma in_set_update:
  "distinct (map fst al) \<Longrightarrow> (q, a) \<in> set (AList.update p d al) \<Longrightarrow>
     (q = p \<and> a = d) \<or> ((q, a) \<in> set al \<and> q \<noteq> p)"
  by (induction al) (force split: if_splits)+

lemma numeric_accepts:
  assumes "getattr p self = Some v" and "as_num v = Some x"
  shows "accepts p (Num y)"
  using assms
  by (cases "slot_of p") (auto simp: getattr_def accepts_def setattr_def)

lemma animate_keeps_ok:
  assumes g: "getattr p self = Some v0" and n: "as_num v0 = Some x"
    and d: "distinct (map fst (animations self))"
    and w: "\<forall>(q, a) \<in> set (animations self). q \<noteq> p \<longrightarrow> writable q a"
    and dur: "dur \<noteq> 0"
  shows "distinct (map fst (animations (animate now p (Num y) dur eas self)))"
    and "all_writable (animations (animate now p (Num y) dur eas self))"
proof -
  let ?d = "\<lparr>anim_from = v0, anim_to = Num y, duration = dur, start_time = now,
             easing = (case eas of None \<Rightarrow> (\<lambda>x. x) | Some e \<Rightarrow> e)\<rparr>"
  have an: "animations (animate now p (Num y) dur eas self) = AList.update p ?d (animations self)"
    using g by (simp add: animate_def)
  show "distinct (map fst (animations (animate now p (Num y) dur eas self)))"
    using d by (simp add: an distinct_update)
  have wd: "writable p ?d"
    unfolding writable_def
  proof (intro conjI allI impI)
    show "duration ?d \<noteq> 0" using dur by simp
  next
    fix t v assume "tick_value t ?d = Some v"
    then obtain z where "v = Num z"
      using n by (auto simp: tick_value_def interpolate_def split: if_splits)
    with numeric_accepts [OF g n] show "accepts p v" by simp
  qed
  show "all_writable (animations (animate now p (Num y) dur eas self))"
    unfolding all_writable_def an
  proof (clarify)
    fix q a assume "(q, a) \<in> set (AList.update p ?d (animations self))"
    from in_set_update [OF d this] w wd show "writable q a" by auto
  qed
qed

lemma map_of_animate:
  "getattr p self = Some v \<Longrightarrow>
     map_of (animations (animate now p to_value dur eas self)) p =
       Some \<lparr>anim_from = v, anim_to = to_value, duration = dur, start_time = now,
             easing = (case eas of None \<Rightarrow> (\<lambda>x. x) | Some e \<Rightarrow> e)\<rparr>"
  by (simp add: animate_def update_conv')

text \<open>
  C4. On a component whose attribute \<open>p\<close> is numeric and equal to 0 (a field such as
  \<open>z_index\<close> or any other attribute), after
  \<open>animate(p, 100, duration=1.0, easing=linear)\<close> at time \<open>t0\<close>: a tick at elapsed
  time 0 leaves \<open>p\<close> at 0, a following tick at elapsed time 0.5 sets it to 50, and a
  following tick at any elapsed time \<open>e \<ge> 1\<close> sets it to exactly 100 and removes the
  descriptor of \<open>p\<close>; none of the ticks raises. The other animations in flight on the
  component are such that a tick can process them (non-zero duration, values that fit
  the attribute they are keyed on); \<open>distinct (map fst ...)\<close> says that the association
  list represents a dict.
\<close>

theorem C4_linear_animation:
  assumes "getattr p c0 = Some v0" and "as_num v0 = Some 0"
    and "distinct (map fst (animations c0))"
    and "\<forall>(q, a) \<in> set (animations c0). q \<noteq> p \<longrightarrow> writable q a"
    and "1 \<le> e"
  shows "let c1 = animate t0 p (Num 100) 1 (Some easing_linear) c0;
             (c2, err2) = update_animations dt1 t0 c1;
             (c3, err3) = update_animations dt2 (t0 + 1 / 2) c2;
             (c4, err4) = update_animations dt3 (t0 + e) c3
         in err2 = None \<and> getattr p c2 = Some (Num 0)
          \<and> err3 = None \<and> getattr p c3 = Some (Num 50)
          \<and> err4 = None \<and> getattr p c4 = Some (Num 100) \<and> map_of (animations c4) p = None"
proof -
  define d where "d = \<lparr>anim_from = v0, anim_to = Num 100, duration = 1, start_time = t0,
             easing = easing_linear\<rparr>"
  define c1 where "c1 = animate t0 p (Num 100) 1 (Some easing_linear) c0"
  define c2 where "c2 = fst (update_animations dt1 t0 c1)"
  define c3 where "c3 = fst (update_animations dt2 (t0 + 1 / 2) c2)"
  define c4 where "c4 = fst (update_animations dt3 (t0 + e) c3)"
  have tv0: "tick_value t0 d = Some (Num 0)"
    and tv1: "tick_value (t0 + 1 / 2) d = Some (Num 50)"
    and tv2: "tick_value (t0 + e) d = Some (Num 100)"
    and p0: "\<not> 1 \<le> progress_of t0 d" and p1: "\<not> 1 \<le> progress_of (t0 + 1 / 2) d"
    and p2: "1 \<le> progress_of (t0 + e) d"
    using assms(2,5)
    by (simp_all add: tick_value_def progress_of_def d_def interpolate_def easing_linear_def)
  have ok1: "distinct (map fst (animations c1))" "all_writable (animations c1)"
    using animate_keeps_ok [OF assms(1-4), where dur = 1 and now = t0 and y = 100
        and eas = "Some easing_linear"]
    by (simp_all add: c1_def)
  have m1: "map_of (animations c1) p = Some d"
    using map_of_animate [OF assms(1)] by (simp add: c1_def d_def)
  note r2 = update_animations_result [OF ok1, where dt = dt1 and now = t0]
  have ok2: "distinct (map fst (animations c2))" "all_writable (animations c2)"
    using update_animations_keeps_ok [OF ok1] by (simp_all add: c2_def)
  have m2: "map_of (animations c2) p = Some d"
    using r2(2) m1 p0 in_completed [OF ok1(1), of p t0]
    by (simp add: c2_def map_of_fold_delete)
  have a2: "getattr p c2 = Some (Num 0)"
    using r2(3) [where name = p] m1 tv0 by (simp add: c2_def tick_get_def)
  note r3 = update_animations_result [OF ok2, where dt = dt2 and now = "t0 + 1 / 2"]
  have ok3: "distinct (map fst (animations c3))" "all_writable (animations c3)"
    using update_animations_keeps_ok [OF ok2] by (simp_all add: c3_def)
  have m3: "map_of (animations c3) p = Some d"
    using r3(2) m2 p1 in_completed [OF ok2(1), of p "t0 + 1 / 2"]
    by (simp add: c3_def map_of_fold_delete)
  have a3: "getattr p c3 = Some (Num 50)"
    using r3(3) [where name = p] m2 tv1 by (simp add: c3_def tick_get_def)
  note r4 = update_animations_result [OF ok3, where dt = dt3 and now = "t0 + e"]
  have a4: "getattr p c4 = Some (Num 100)"
    using r4(3) [where name = p] m3 tv2 by (simp add: c4_def tick_get_def)
  have m4: "map_of (animations c4) p = None"
    using r4(2) m3 p2 in_completed [OF ok3(1), of p "t0 + e"]
    by (simp add: c4_def map_of_fold_delete)
  have "snd (update_animations dt1 t0 c1) = None"
    and "snd (update_animations dt2 (t0 + 1 / 2) c2) = None"
    and "snd (update_animations dt3 (t0 + e) c3) = None"
    using r2(1) r3(1) r4(1) by simp_all
  with a2 a3 a4 m4 show ?thesis
    by (simp add: Let_def case_prod_beta c1_def c2_def c3_def c4_def)
qed

theorem C4_linear_animation_witness:
  "let c1 = animate 0 ''z_index'' (Num 100) 1 (Some easing_linear) blank;
       (c2, err2) = update_animations (1 / 30) 0 c1;
       (c3, err3) = update_animations (1 / 30) (0 + 1 / 2) c2;
       (c4, err4) = update_animations (1 / 30) (0 + 1) c3
   in err2 = None \<and> getattr ''z_index'' c2 = Some (Num 0)
    \<and> err3 = None \<and> getattr ''z_index'' c3 = Some (Num 50)
    \<and> err4 = None \<and> getattr ''z_index'' c4 = Some (Num 100)
    \<and> map_of (animations c4) ''z_index'' = None"
proof -
  have "getattr ''z_index'' blank = Some (Num 0)" and "as_num (Num 0) = Some 0"
    and "distinct (map fst (animations blank))"
    and "\<forall>(q, a) \<in> set (animations blank). q \<noteq> ''z_index'' \<longrightarrow> writable q a"
    and "(1::real) \<le> 1"
    by (simp_all add: getattr_def slot_of_def field_slots_def blank_def new_component_def)
  then show ?thesis
    by (rule C4_linear_animation)
qed

text \<open>
  The field \<open>z_index\<close> of a fresh component, animated to 100 over one second, is 50
  after a tick at elapsed time 0.5.
\<close>

lemma z_index_after_ticks:
  "z_index (fst (update_animations dt (1 / 2) (animate 0 ''z_index'' (Num 100) 1 None blank))) = 50"
  by (simp add: update_animations_def animate_def getattr_def setattr_def slot_of_def
      field_slots_def blank_def new_component_def interpolate_def Let_def)









lemmas slot_defs = getattr_def setattr_def slot_of_def field_slots_def method_names_def

lemma half_hidden_children:
  "children (half_hidden_heap p) = (if p = 0 then [1, 2] else if p = 2 then [3] else [])"
  by (simp add: half_hidden_heap_def children_add_child blank_heap_def animate_def slot_defs
      blank_def new_component_def)

lemma tree_shaped_half_hidden: "tree_shaped half_hidden_heap"
proof -
  have "child_rel half_hidden_heap \<subseteq> less_than"
    by (auto simp: child_rel_def half_hidden_children split: if_splits)
  then have "acyclic (child_rel half_hidden_heap)"
    using acyclic_subset wf_acyclic wf_less_than by blast
  moreover have "\<forall>p q n. n \<in> set (children (half_hidden_heap p))
      \<and> n \<in> set (children (half_hidden_heap q)) \<longrightarrow> p = q"
    by (auto simp: half_hidden_children split: if_splits)
  ultimately show ?thesis by (simp add: tree_shaped_def)
qed

lemma rewired_children: "children (rewired_heap p) = children (half_hidden_heap p)"
  by (simp add: rewired_heap_def animate_def slot_defs)

lemma tree_shaped_rewired: "tree_shaped rewired_heap"
  using tree_shaped_half_hidden
  by (simp add: tree_shaped_def child_rel_def rewired_children)

lemma half_hidden_facts:
  "2 \<in> set (children (half_hidden_heap 0))" "\<not> visible (half_hidden_heap 2)"
  "3 \<in> subtree half_hidden_heap 2"
  "children_not_animated half_hidden_heap (subtree half_hidden_heap 2)"
proof -
  show "2 \<in> set (children (half_hidden_heap 0))" by (simp add: half_hidden_children)
  show "\<not> visible (half_hidden_heap 2)"
    by (simp add: half_hidden_heap_def add_child_def blank_heap_def visible_def)
  have "(2, 3) \<in> child_rel half_hidden_heap"
    by (simp add: child_rel_def half_hidden_children)
  then show "3 \<in> subtree half_hidden_heap 2" by (auto simp: subtree_def)
  have "''children'' \<notin> fst ` set (animations (half_hidden_heap x))" for x
    by (simp add: half_hidden_heap_def add_child_def blank_heap_def animate_def slot_defs
        blank_def new_component_def)
  then show "children_not_animated half_hidden_heap (subtree half_hidden_heap 2)"
    by (simp add: children_not_animated_def)
qed


text \<open>
  In the same store the visible child does advance: after one update at clock reading 2
  its \<open>z_index\<close> is 50, while the hidden subtree is untouched.
\<close>

lemma visible_child_advances:
  "z_index (fst (fst (update (Suc (Suc d)) (\<lambda>k. 2) (1 / 30) 0 (half_hidden_heap, 0))) 1) = 50"
  by (simp add: half_hidden_heap_def add_child_def blank_heap_def animate_def slot_defs
      blank_def new_component_def update_animations_def interpolate_def visible_def Let_def)

lemma rewired_update:
  "z_index (fst (fst (update (Suc (Suc d)) (\<lambda>k. 2) (1 / 30) 0 (rewired_heap, 0))) 3) = 50"
  by (simp add: rewired_heap_def half_hidden_heap_def add_child_def blank_heap_def animate_def
      slot_defs blank_def new_component_def update_animations_def interpolate_def visible_def
      Let_def)

lemma rewired_facts:
  "2 \<in> set (children (rewired_heap 0))" "\<not> visible (rewired_heap 2)"
  "3 \<in> subtree rewired_heap 2" "z_index (rewired_heap 3) = 0"
proof -
  show "2 \<in> set (children (rewired_heap 0))"
    by (simp add: rewired_children half_hidden_children)
  show "\<not> visible (rewired_heap 2)"
    using half_hidden_facts(2) by (simp add: rewired_heap_def)
  have "(2, 3) \<in> child_rel rewired_heap"
    by (simp add: child_rel_def rewired_children half_hidden_children)
  then show "3 \<in> subtree rewired_heap 2" by (auto simp: subtree_def)
  show "z_index (rewired_heap 3) = 0"
    by (simp add: rewired_heap_def half_hidden_heap_def add_child_def blank_heap_def animate_def
        slot_defs blank_def new_component_def)
qed

text \<open>
  C9 (as stated, refuted). The root (reference 0) has a hidden child (reference 2) whose
  child (reference 3) animates its \<open>z_index\<close>; the root itself has an animation in
  flight on its \<open>children\<close> attribute, towards the list holding reference 3. When that
  animation completes during \<open>root.update\<close>, \<open>setattr\<close> replaces the child list, the
  loop over the children visits reference 3, and its animation advances: a node of the
  hidden subtree is changed by the update.
\<close>

theorem C9_children_animation_reaches_hidden:
  "tree_shaped rewired_heap \<and> 2 \<in> set (children (rewired_heap 0)) \<and> \<not> visible (rewired_heap 2)
   \<and> 3 \<in> subtree rewired_heap 2
   \<and> fst (fst (update 1000 (\<lambda>k. 2) (1 / 30) 0 (rewired_heap, 0))) 3 \<noteq> rewired_heap 3"
proof -
  have "z_index (fst (fst (update 1000 (\<lambda>k. 2) (1 / 30) 0 (rewired_heap, 0))) 3) = 50"
    using rewired_update [of 998] by (simp del: update.simps)
  with rewired_facts(4)
  have "fst (fst (update 1000 (\<lambda>k. 2) (1 / 30) 0 (rewired_heap, 0))) 3 \<noteq> rewired_heap 3"
    by auto
  with tree_shaped_rewired rewired_facts(1-3) show ?thesis by simp
qed

lemma run_handlers_trace:
  assumes "contained sem hs pl"
  shows "snd (run_handlers sem hs pl (w, tr)) = None
     \<and> (\<exists>new. snd (fst (run_handlers sem hs pl (w, tr))) = tr @ new
          \<and> invoked new = hs
          \<and> printed new = map (\<lambda>e. ''Error in event handler: '' @ e) (raised new))"
  using assms
proof (induction hs arbitrary: w tr)
  case Nil
  show ?case by simp
next
  case (Cons a hs)
  from Cons.prems have c: "contained sem hs pl" and na: "\<And>w m. snd (sem a pl w) \<noteq> Exited m"
    by (simp_all add: contained_def)
  obtain w' oc where step: "sem a pl w = (w', oc)" by (cases "sem a pl w")
  show ?case
  proof (cases oc)
    case Returned
    from Cons.IH [OF c, of w' "tr @ [Invoked a pl Returned]"] obtain new where
      "snd (run_handlers sem hs pl (w', tr @ [Invoked a pl Returned])) = None"
      "snd (fst (run_handlers sem hs pl (w', tr @ [Invoked a pl Returned])))
         = (tr @ [Invoked a pl Returned]) @ new"
      "invoked new = hs" "printed new = map (\<lambda>e. ''Error in event handler: '' @ e) (raised new)"
      by blast
    with step Returned show ?thesis
      by (intro conjI exI [of _ "Invoked a pl Returned # new"]) simp_all
  next
    case (Raised e)
    let ?t = "[Invoked a pl (Raised e), Printed (''Error in event handler: '' @ e)]"
    from Cons.IH [OF c, of w' "tr @ ?t"] obtain new where
      "snd (run_handlers sem hs pl (w', tr @ ?t)) = None"
      "snd (fst (run_handlers sem hs pl (w', tr @ ?t))) = (tr @ ?t) @ new"
      "invoked new = hs" "printed new = map (\<lambda>e. ''Error in event handler: '' @ e) (raised new)"
      by blast
    with step Raised show ?thesis
      by (intro conjI exI [of _ "?t @ new"]) simp_all
  next
    case (Exited m)
    with step na [of w m] show ?thesis by simp
  qed
qed


lemma demo_button_handlers: "handlers_of demo_button CLICK = [0, 1, 2]"
  by (simp add: handlers_of_def demo_button_def on_def blank_def new_component_def)


text \<open>
  C7 (as stated, refuted). Handlers 0, 1, 2 are registered for a click and handler 1
  raises \<open>SystemExit\<close>: \<open>except Exception\<close> does not catch it, so it leaves \<open>emit\<close>,
  nothing is printed, and handler 2 is never invoked.
\<close>

theorem C7_system_exit_escapes:
  "handlers_of demo_button CLICK = [0, 1, 2]
   \<and> snd (emit exit_sem demo_button CLICK ([], []) (0, [])) = Some (BaseException ''SystemExit'')
   \<and> invoked (snd (fst (emit exit_sem demo_button CLICK ([], []) (0, [])))) = [0, 1]
   \<and> printed (snd (fst (emit exit_sem demo_button CLICK ([], []) (0, [])))) = []"
  by (simp add: demo_button_handlers)
     (simp add: emit_def demo_button_def on_def blank_def new_component_def exit_sem_def)

lemma calls_run_handlers:
  "calls (snd (fst (run_handlers sem hs pl (w, tr)))) = calls tr"
  by (induction hs arbitrary: w tr) (auto simp: calls_append split: prod.splits outcome.splits)

lemma calls_emit: "calls (snd (fst (emit sem self event pl (w, tr)))) = calls tr"
  by (simp add: emit_def calls_run_handlers split: option.splits)

lemma contained_ordinary: "contained (ordinary f) hs pl"
  by (auto simp: contained_def ordinary_def split: prod.splits option.splits)

lemma emit_ordinary: "snd (emit (ordinary f) self event pl (w, tr)) = None"
proof (cases "event_handlers self event")
  case None
  then show ?thesis by (simp add: emit_def)
next
  case (Some hs)
  with run_handlers_trace [OF contained_ordinary, of f hs pl w tr] show ?thesis
    by (simp add: emit_def)
qed

lemma emit_to_frame:
  "mgr (fst (emit_to sem n event pl w)) = mgr w
   \<and> comps (fst (emit_to sem n event pl w)) = comps w
   \<and> scrs (fst (emit_to sem n event pl w)) = scrs w
   \<and> calls (out (fst (emit_to sem n event pl w))) = calls (out w) @ [EmitCall n event pl]"
proof -
  obtain a' tr' err where e:
    "emit sem (comps w n) event pl (app w, out w @ [EmitCall n event pl]) = ((a', tr'), err)"
    by (cases "emit sem (comps w n) event pl (app w, out w @ [EmitCall n event pl])") auto
  from calls_emit [of sem "comps w n" event pl "app w" "out w @ [EmitCall n event pl]"] e
  show ?thesis by (simp add: emit_to_def calls_append)
qed

lemma emit_to_ordinary: "snd (emit_to (ordinary f) n event pl w) = None"
  using emit_ordinary [of f "comps w n" event pl "app w" "out w @ [EmitCall n event pl]"]
  by (auto simp: emit_to_def split: prod.splits)

lemma case_emit_to_ordinary:
  "(case emit_to (ordinary f) n event pl w of (wa, None) \<Rightarrow> B wa | (wa, Some e) \<Rightarrow> A wa e)
     = B (fst (emit_to (ordinary f) n event pl w))"
  using emit_to_ordinary [of f n event pl w]
  by (cases "emit_to (ordinary f) n event pl w") auto

lemma handle_event_frame:
  "mgr (fst (handle_event ssem s event kw w)) = mgr w
   \<and> calls (out (fst (handle_event ssem s event kw w))) = calls (out w) @ [HandleEventCall s event kw]"
  by (simp add: handle_event_def calls_append split: prod.splits outcome.splits)

text \<open>
  C3. With an active screen \<open>cur\<close>, a click or long press at \<open>(px, py)\<close> whose
  \<open>hit_test\<close> on the root of \<open>cur\<close> resolves to \<open>hit\<close> (a node or \<open>None\<close>) makes
  exactly these calls, in this order: if \<open>hit\<close> differs from the focused component,
  \<open>emit(BLUR)\<close> on the old focus (if any) and \<open>emit(FOCUS)\<close> on \<open>hit\<close> (if any);
  then \<open>emit(event, **kwargs)\<close> on \<open>hit\<close> (if any); then, in every case,
  \<open>handle_event\<close> of the active screen. Afterwards the focused component is \<open>hit\<close>.
  The handlers are those that return or fail with an instance of \<open>Exception\<close>.
\<close>

theorem C3_handle_input:
  assumes "current_screen (mgr w) = Some cur"
    and "event = CLICK \<or> event = LONG_PRESS"
    and "hit_test d (comps w) (screen_root (scrs w cur)) px py = Inr hit"
  shows "focused_component
           (mgr (fst (handle_input (ordinary sem) ssem d event (Some px) (Some py) kw w))) = hit
     \<and> calls (out (fst (handle_input (ordinary sem) ssem d event (Some px) (Some py) kw w))) =
         calls (out w)
         @ (if hit \<noteq> focused_component (mgr w)
            then (case focused_component (mgr w) of
                    None \<Rightarrow> [] | Some old \<Rightarrow> [EmitCall old BLUR ([], [])])
                 @ (case hit of None \<Rightarrow> [] | Some n \<Rightarrow> [EmitCall n FOCUS ([], [])])
            else [])
         @ (case hit of None \<Rightarrow> [] | Some n \<Rightarrow> [EmitCall n event ([], kw)])
         @ [HandleEventCall cur event kw]"
  using assms
  by (cases hit; cases "focused_component (mgr w)")
     (simp_all add: handle_input_def Let_def case_emit_to_ordinary emit_to_frame
        handle_event_frame)

theorem C3_handle_input_witness:
  "focused_component
     (mgr (fst (handle_input (ordinary demo_handlers) demo_ssem (Suc (Suc 0)) CLICK (Some 30)
                  (Some 20) [] demo_world)))
     = Some 1
   \<and> calls (out (fst (handle_input (ordinary demo_handlers) demo_ssem (Suc (Suc 0)) CLICK
                        (Some 30) (Some 20) [] demo_world)))
     = [EmitCall 1 FOCUS ([], []), EmitCall 1 CLICK ([], []), HandleEventCall 0 CLICK []]"
proof -
  have "hit_test (Suc (Suc 0)) (comps demo_world) (screen_root (scrs demo_world 0)) 30 20
      = Inr (Some 1)"
    by (simp add: demo_world_facts on_def scenario_defs)
  moreover have "CLICK = CLICK \<or> CLICK = LONG_PRESS" by simp
  ultimately show ?thesis
    using C3_handle_input [where w = demo_world and cur = 0 and event = CLICK
        and d = "Suc (Suc 0)" and px = 30 and py = 20 and hit = "Some 1"
        and sem = demo_handlers and ssem = demo_ssem and kw = "[]"]
    by (simp add: demo_world_facts del: hit_test.simps)
qed

end
